theory Spec2Isabelle
  imports Complex_Main "HOL-Library.AList"
begin

section \<open>JavaScript numbers\<close>

text \<open>
  Every numeric field of \<^verbatim>\<open>Looper.ts\<close> is a JavaScript \<^verbatim>\<open>number\<close>, an IEEE double: a
  finite value, one of the two infinities, or \<^verbatim>\<open>NaN\<close>. The two zeros are one value here:
  the sign of zero is not modelled, and a zero divisor is read as \<^verbatim>\<open>+0\<close>.
\<close>

datatype number = Num real | PInf | NInf | NaN

definition signed_inf :: "real \<Rightarrow> number" where
  "signed_inf a = (if a = 0 then NaN else if 0 < a then PInf else NInf)"

text \<open>The comparison \<^verbatim>\<open>a < b\<close>: false as soon as one side is \<^verbatim>\<open>NaN\<close>.\<close>

fun js_lt :: "number \<Rightarrow> number \<Rightarrow> bool" where
  "js_lt NaN _ = False"
| "js_lt _ NaN = False"
| "js_lt (Num a) (Num b) = (a < b)"
| "js_lt _ NInf = False"
| "js_lt NInf _ = True"
| "js_lt PInf _ = False"
| "js_lt _ PInf = True"

text \<open>The comparison \<^verbatim>\<open>a <= b\<close>.\<close>

definition js_le :: "number \<Rightarrow> number \<Rightarrow> bool" where
  "js_le a b = (a \<noteq> NaN \<and> b \<noteq> NaN \<and> \<not> js_lt b a)"

text \<open>
  An arithmetic operation on finite numbers returns its exact result rounded to a
  double, or an infinity when that overflows. The rounding is a parameter of the model:
  \<open>fl r x\<close> is the number the machine returns for the exact result \<open>x\<close>. Nothing is
  assumed of it but these properties of the rounding to the nearest double: the result
  is never \<^verbatim>\<open>NaN\<close>; rounding is monotone; an integer of magnitude up to \<^verbatim>\<open>2^53\<close> is its
  own rounding; an integer is rounded to an integer or overflows; and from \<^verbatim>\<open>2^-1022\<close> to
  \<^verbatim>\<open>2^1023\<close> in magnitude the relative error is at most \<^verbatim>\<open>2^-53\<close>. Exact arithmetic has
  these properties too, so the type is inhabited.
\<close>

definition double_rounding :: "(real \<Rightarrow> number) \<Rightarrow> bool" where
  "double_rounding f \<longleftrightarrow>
     (\<forall>x. f x \<noteq> NaN) \<and>
     (\<forall>x y. x \<le> y \<longrightarrow> js_le (f x) (f y)) \<and>
     (\<forall>n::int. abs n \<le> 2 ^ 53 \<longrightarrow> f (of_int n) = Num (of_int n)) \<and>
     (\<forall>n::int. f (of_int n) = PInf \<or> f (of_int n) = NInf \<or>
                (\<exists>m::int. f (of_int n) = Num (of_int m))) \<and>
     (\<forall>x. 1 / 2 ^ 1022 \<le> abs x \<and> abs x \<le> 2 ^ 1023 \<longrightarrow>
          (\<exists>y. f x = Num y \<and> abs (y - x) \<le> abs x / 2 ^ 53))"

typedef rounding = "{f :: real \<Rightarrow> number. double_rounding f}"
proof
  show "Num \<in> {f. double_rounding f}"
    by (simp add: double_rounding_def js_le_def)
qed

definition fl :: "rounding \<Rightarrow> real \<Rightarrow> number" where
  "fl r = Rep_rounding r"

fun js_neg :: "number \<Rightarrow> number" where
  "js_neg (Num a) = Num (- a)"
| "js_neg PInf = NInf"
| "js_neg NInf = PInf"
| "js_neg NaN = NaN"

fun js_add :: "rounding \<Rightarrow> number \<Rightarrow> number \<Rightarrow> number" where
  "js_add r NaN _ = NaN"
| "js_add r _ NaN = NaN"
| "js_add r (Num a) (Num b) = fl r (a + b)"
| "js_add r PInf NInf = NaN"
| "js_add r NInf PInf = NaN"
| "js_add r PInf _ = PInf"
| "js_add r _ PInf = PInf"
| "js_add r NInf _ = NInf"
| "js_add r _ NInf = NInf"

definition js_sub :: "rounding \<Rightarrow> number \<Rightarrow> number \<Rightarrow> number" where
  "js_sub r a b = js_add r a (js_neg b)"

fun js_mul :: "rounding \<Rightarrow> number \<Rightarrow> number \<Rightarrow> number" where
  "js_mul r NaN _ = NaN"
| "js_mul r _ NaN = NaN"
| "js_mul r (Num a) (Num b) = fl r (a * b)"
| "js_mul r (Num a) PInf = signed_inf a"
| "js_mul r (Num a) NInf = signed_inf (- a)"
| "js_mul r PInf (Num b) = signed_inf b"
| "js_mul r NInf (Num b) = signed_inf (- b)"
| "js_mul r PInf PInf = PInf"
| "js_mul r NInf NInf = PInf"
| "js_mul r PInf NInf = NInf"
| "js_mul r NInf PInf = NInf"

fun js_div :: "rounding \<Rightarrow> number \<Rightarrow> number \<Rightarrow> number" where
  "js_div r NaN _ = NaN"
| "js_div r _ NaN = NaN"
| "js_div r (Num a) (Num b) = (if b = 0 then signed_inf a else fl r (a / b))"
| "js_div r (Num a) _ = Num 0"
| "js_div r PInf (Num b) = (if 0 \<le> b then PInf else NInf)"
| "js_div r NInf (Num b) = (if 0 \<le> b then NInf else PInf)"
| "js_div r _ _ = NaN"

text \<open>
  \<^verbatim>\<open>Math.min\<close> and \<^verbatim>\<open>Math.max\<close> of two arguments, and \<^verbatim>\<open>Math.round\<close>: the nearest
  integer, a half rounded up, which is a double whenever the argument is one.
\<close>

definition Math_min :: "number \<Rightarrow> number \<Rightarrow> number" where
  "Math_min a b = (if a = NaN \<or> b = NaN then NaN else if js_lt b a then b else a)"

definition Math_max :: "number \<Rightarrow> number \<Rightarrow> number" where
  "Math_max a b = (if a = NaN \<or> b = NaN then NaN else if js_lt a b then b else a)"

fun Math_round :: "number \<Rightarrow> number" where
  "Math_round (Num a) = Num (of_int \<lfloor>a + 1 / 2\<rfloor>)"
| "Math_round x = x"

text \<open>
  \<^verbatim>\<open>ToNumber\<close> of an array goes through its string: the empty array gives the empty
  string, hence 0; an array of one number gives that number; an array of plain objects
  gives \<^verbatim>\<open>"[object Object],..."\<close> and an array of several numbers gives \<^verbatim>\<open>"a,b"\<close>,
  hence \<^verbatim>\<open>NaN\<close>.
\<close>

definition to_number_objects :: "'a list \<Rightarrow> number" where
  "to_number_objects arr = (if arr = [] then Num 0 else NaN)"

definition to_number_numbers :: "number list \<Rightarrow> number" where
  "to_number_numbers arr = (case arr of [] \<Rightarrow> Num 0 | [x] \<Rightarrow> x | _ \<Rightarrow> NaN)"


section \<open>The timing map\<close>

datatype granularity = Tatums | Segments | Beats | Bars | Sections

text \<open>One interval of the track analysis, with the fields \<^verbatim>\<open>buildStaticIntervals\<close>
  writes and \<^verbatim>\<open>getVolume\<close> reads.\<close>

record interval =
  start :: number
  duration :: number
  loudness_start :: number
  loudness_max :: number
  loudness_max_time :: number

definition intervalTypes :: "granularity list" where
  "intervalTypes = [Tatums, Segments, Beats, Bars, Sections]"


subsection \<open>buildStaticIntervals\<close>

text \<open>
  The local object \<^verbatim>\<open>duration\<close>: a number for beats, segments, sections and bars, and
  the array \<^verbatim>\<open>[base * (2 / 3), base * (1 / 3)]\<close> for tatums.
\<close>

definition duration_tatums :: "rounding \<Rightarrow> number \<Rightarrow> number list" where
  "duration_tatums r base =
     [js_mul r base (js_div r (Num 2) (Num 3)), js_mul r base (js_div r (Num 1) (Num 3))]"

text \<open>
  \<^verbatim>\<open>(duration as any)[type]\<close> where the source uses it as a number. For tatums the
  entry is the array, which the product \<^verbatim>\<open>0.5 * duration[type]\<close> converts to a number.
\<close>

definition duration_of :: "rounding \<Rightarrow> number \<Rightarrow> granularity \<Rightarrow> number" where
  "duration_of r base ty =
     (case ty of
        Beats \<Rightarrow> base
      | Segments \<Rightarrow> js_div r base (Num 2)
      | Sections \<Rightarrow> js_mul r base (Num 16)
      | Bars \<Rightarrow> js_mul r base (Num 4)
      | Tatums \<Rightarrow> to_number_numbers (duration_tatums r base))"

text \<open>
  \<^verbatim>\<open>tatumStart\<close> reads \<^verbatim>\<open>analysis.tatums[i - 1]\<close>, which is undefined at \<^verbatim>\<open>i = 0\<close>
  and beyond the end of the array.
\<close>

definition tatumStart :: "rounding \<Rightarrow> interval list \<Rightarrow> nat \<Rightarrow> number" where
  "tatumStart r tatums i =
     (if 0 < i \<and> i - 1 < length tatums
      then Math_round (js_add r (start (tatums ! (i - 1))) (duration (tatums ! (i - 1))))
      else Num 0)"

definition tatumDuration :: "rounding \<Rightarrow> number \<Rightarrow> nat \<Rightarrow> number" where
  "tatumDuration r base i =
     (if i mod 2 = 0 then Math_round (duration_tatums r base ! 0)
      else Math_round (duration_tatums r base ! 1))"

text \<open>
  The object pushed in iteration \<^verbatim>\<open>i\<close>. \<open>tatums\<close> is \<^verbatim>\<open>analysis.tatums\<close> and \<open>arr\<close> is
  \<^verbatim>\<open>analysis[type]\<close>, the array under construction: the source multiplies \<^verbatim>\<open>i\<close> by that
  array (\<^verbatim>\<open>i * (analysis as any)[type]\<close>), not by \<^verbatim>\<open>duration[type]\<close>.
\<close>

definition make_interval ::
  "rounding \<Rightarrow> number \<Rightarrow> granularity \<Rightarrow> interval list \<Rightarrow> interval list \<Rightarrow> nat \<Rightarrow> interval"
  where
  "make_interval r base ty tatums arr i =
     \<lparr> start = (if ty = Tatums then tatumStart r tatums i
                else js_mul r (Num (of_nat i)) (to_number_objects arr)),
       duration = (if ty = Tatums then tatumDuration r base i else duration_of r base ty),
       loudness_start =
         js_add r (Num (- 30)) (js_mul r (js_div r (Num (of_nat i)) (Num 10000)) (Num 20)),
       loudness_max =
         js_add r (Num (- 25)) (js_mul r (js_div r (Num (of_nat i)) (Num 10000)) (Num 20)),
       loudness_max_time = js_mul r (Num (1 / 2)) (duration_of r base ty) \<rparr>"

text \<open>
  The loop \<^verbatim>\<open>for (var i = 0; i < 10000; i++)\<close> for one type. \<open>done_tatums\<close> is the
  finished tatum array, which \<^verbatim>\<open>analysis.tatums\<close> denotes for the later types; for the
  tatums themselves it denotes the array under construction.
\<close>

function build_loop ::
  "rounding \<Rightarrow> number \<Rightarrow> granularity \<Rightarrow> interval list \<Rightarrow> nat \<Rightarrow> interval list \<Rightarrow> interval list"
  where
  "build_loop r base ty done_tatums i arr =
     (if i < 10000
      then build_loop r base ty done_tatums (Suc i)
             (arr @ [make_interval r base ty (if ty = Tatums then arr else done_tatums) arr i])
      else arr)"
  by pat_completeness auto
termination
  by (relation "measure (\<lambda>(r, base, ty, done_tatums, i, arr). 10000 - i)") auto

definition buildStaticIntervals :: "rounding \<Rightarrow> number \<Rightarrow> granularity \<Rightarrow> interval list" where
  "buildStaticIntervals r base =
     (let tatums = build_loop r base Tatums [] 0 []
      in (\<lambda>ty. if ty = Tatums then tatums else build_loop r base ty tatums 0 []))"


section \<open>The state of a Looper\<close>

text \<open>
  The object \<^verbatim>\<open>{ ...analysis[index], index }\<close> that \<^verbatim>\<open>setActiveIntervals\<close> stores as the
  active interval of a type, and the same object once \<^verbatim>\<open>elapsed\<close> and \<^verbatim>\<open>progress\<close> have
  been written into it.
\<close>

record indexed = interval +
  index :: nat

record active = indexed +
  elapsed :: number
  progress :: number

text \<open>A value that may be \<^verbatim>\<open>undefined\<close>.\<close>

datatype jsval = Undefined | Number number

text \<open>One entry of \<^verbatim>\<open>state.volumeQueues\<close>, as \<^verbatim>\<open>registerQueue\<close> creates it.\<close>

record queue =
  totalSamples :: int
  smoothing :: int
  "values" :: "number list"
  volume :: jsval
  average :: jsval
  min_q :: jsval
  max_q :: jsval
  mode :: string

text \<open>
  Hook functions are opaque to the Looper: a callback is a name, and calling it with a
  value is recorded in the field \<open>calls\<close> of the state. The field \<open>watchers\<close> holds the
  callbacks watching the keys of \<^verbatim>\<open>state.activeIntervals\<close>; the only closure the source
  registers there is \<^verbatim>\<open>(v) => this.hooks.<name>.forEach(h => h(v))\<close>, which
  \<open>Run_hooks name\<close> stands for.
\<close>

type_synonym callback = nat

datatype watcher = Run_hooks granularity

text \<open>
  The fields of \<^verbatim>\<open>this.hooks\<close> and \<^verbatim>\<open>this.state\<close> that the methods below use. The keys
  \<^verbatim>\<open>tatum\<close>, \<^verbatim>\<open>segment\<close>, \<^verbatim>\<open>beat\<close>, \<^verbatim>\<open>bar\<close>, \<^verbatim>\<open>section\<close> of \<^verbatim>\<open>hooks\<close> are named by the
  granularity. An active interval that is still the initial empty object \<^verbatim>\<open>{}\<close> is
  \<open>None\<close>. \<^verbatim>\<open>volumeQueues\<close> is a dictionary from names to queues, kept in insertion order.
\<close>

record looper =
  hooks :: "granularity \<Rightarrow> callback list"
  watchers :: "granularity \<Rightarrow> watcher list"
  calls :: "(callback \<times> indexed) list"
  activeIntervals :: "granularity \<Rightarrow> active option"
  trackAnalysis :: "granularity \<Rightarrow> interval list"
  initialTrackProgress :: number
  initialStart :: number
  trackProgress :: number
  volumeQueues :: "(string \<times> queue) list"

datatype error = TypeError | Empty_analysis


subsection \<open>subscribeHooks and on\<close>

text \<open>
  Modelled from the spec: \<^verbatim>\<open>watch\<close> of \<^verbatim>\<open>Observe\<close> (\<^verbatim>\<open>../utils/Observe\<close> is not among the
  sources). \<^verbatim>\<open>watch(key, callback)\<close> registers a callback on a key; here the key is an
  interval type of \<^verbatim>\<open>state.activeIntervals\<close>.
\<close>

definition watch_active :: "granularity \<Rightarrow> watcher \<Rightarrow> looper \<Rightarrow> looper" where
  "watch_active t w st = st\<lparr>watchers := (watchers st)(t := watchers st t @ [w])\<rparr>"

text \<open>
  \<^verbatim>\<open>subscribeHooks\<close> registers one watcher per interval type; whatever the type, the
  closure runs the list \<^verbatim>\<open>this.hooks.segment\<close>.
\<close>

definition subscribeHooks :: "looper \<Rightarrow> looper" where
  "subscribeHooks st = fold (\<lambda>t. watch_active t (Run_hooks Segments)) intervalTypes st"

definition on :: "granularity \<Rightarrow> callback \<Rightarrow> looper \<Rightarrow> looper" where
  "on g h st = st\<lparr>hooks := (hooks st)(g := hooks st g @ [h])\<rparr>"

text \<open>The closure of a watcher, run with the new value \<open>v\<close>.\<close>

definition run_watcher :: "watcher \<Rightarrow> indexed \<Rightarrow> looper \<Rightarrow> looper" where
  "run_watcher w v st =
     (case w of Run_hooks g \<Rightarrow> st\<lparr>calls := calls st @ map (\<lambda>h. (h, v)) (hooks st g)\<rparr>)"

text \<open>
  Modelled from the spec: the change signal of \<^verbatim>\<open>Observe\<close> (\<^verbatim>\<open>../utils/Observe\<close> is not among
  the sources). Replacing the value of a key invokes, synchronously and with the new
  value, the callbacks that watch the key; writing a field of the value in place invokes
  none.
\<close>

definition notify :: "granularity \<Rightarrow> indexed \<Rightarrow> looper \<Rightarrow> looper" where
  "notify t v st = fold (\<lambda>w. run_watcher w v) (watchers st t) st"


subsection \<open>setActiveIntervals\<close>

text \<open>
  The loop of \<^verbatim>\<open>determineInterval\<close>. \<open>Inr None\<close> is the loop falling through (the
  function returns \<^verbatim>\<open>undefined\<close>); reading \<^verbatim>\<open>.start\<close> of an element beyond the end of the
  array would be a \<^verbatim>\<open>TypeError\<close>.
\<close>

function determine_loop :: "interval list \<Rightarrow> number \<Rightarrow> nat \<Rightarrow> error + nat option" where
  "determine_loop analysis p i =
     (if i < length analysis then
        if i = length analysis - 1 then Inr (Some i)
        else if js_lt (start (analysis ! i)) p then
          if Suc i < length analysis then
            if js_lt p (start (analysis ! Suc i)) then Inr (Some i)
            else determine_loop analysis p (Suc i)
          else Inl TypeError
        else determine_loop analysis p (Suc i)
      else Inr None)"
  by pat_completeness auto
termination
  by (relation "measure (\<lambda>(analysis, p, i). length analysis - i)") auto

definition determineInterval :: "looper \<Rightarrow> granularity \<Rightarrow> error + nat option" where
  "determineInterval st t = determine_loop (trackAnalysis st t) (trackProgress st) 0"

text \<open>
  The body of the \<^verbatim>\<open>forEach\<close> of \<^verbatim>\<open>setActiveIntervals\<close> for one type: the active
  interval is replaced, which notifies the watchers, when the index differs; then
  \<^verbatim>\<open>elapsed\<close> and \<^verbatim>\<open>progress\<close> are written into the active object. For an empty sequence
  the source goes on with an undefined index, start and duration; the model does not
  represent such an active interval and stops with \<open>Empty_analysis\<close>.
\<close>

definition with_index :: "interval \<Rightarrow> nat \<Rightarrow> indexed" where
  "with_index iv i =
     \<lparr> start = start iv, duration = duration iv, loudness_start = loudness_start iv,
       loudness_max = loudness_max iv, loudness_max_time = loudness_max_time iv,
       index = i \<rparr>"

definition with_elapsed :: "rounding \<Rightarrow> indexed \<Rightarrow> number \<Rightarrow> active" where
  "with_elapsed r v p =
     \<lparr> start = start v, duration = duration v, loudness_start = loudness_start v,
       loudness_max = loudness_max v, loudness_max_time = loudness_max_time v,
       index = index v,
       elapsed = js_sub r p (start v),
       progress = js_div r (js_sub r p (start v)) (duration v) \<rparr>"

definition current_object :: "active \<Rightarrow> indexed" where
  "current_object a =
     \<lparr> start = start a, duration = duration a, loudness_start = loudness_start a,
       loudness_max = loudness_max a, loudness_max_time = loudness_max_time a,
       index = index a \<rparr>"

text \<open>
  The assignment \<^verbatim>\<open>this.state.activeIntervals[type] = { ...analysis[index], index }\<close>, which
  notifies the watchers of the type with the new object, followed by the two writes of
  \<^verbatim>\<open>elapsed\<close> and \<^verbatim>\<open>progress\<close> into that object.
\<close>

definition replace_active :: "rounding \<Rightarrow> granularity \<Rightarrow> nat \<Rightarrow> looper \<Rightarrow> looper" where
  "replace_active r t i st =
     (let v = with_index (trackAnalysis st t ! i) i;
          st' = notify t v st
      in st'\<lparr>activeIntervals :=
               (activeIntervals st')(t := Some (with_elapsed r v (trackProgress st')))\<rparr>)"

definition set_active :: "rounding \<Rightarrow> granularity \<Rightarrow> looper \<Rightarrow> error + looper" where
  "set_active r t st =
     (case determineInterval st t of
        Inl e \<Rightarrow> Inl e
      | Inr None \<Rightarrow> Inl Empty_analysis
      | Inr (Some i) \<Rightarrow>
          (case activeIntervals st t of
             None \<Rightarrow> Inr (replace_active r t i st)
           | Some a \<Rightarrow>
               if i \<noteq> index a then Inr (replace_active r t i st)
               else
                 Inr (st\<lparr>activeIntervals :=
                           (activeIntervals st)(t :=
                              Some (with_elapsed r (current_object a) (trackProgress st)))\<rparr>)))"

fun for_each :: "('a \<Rightarrow> 's \<Rightarrow> error + 's) \<Rightarrow> 'a list \<Rightarrow> 's \<Rightarrow> error + 's" where
  "for_each f [] st = Inr st"
| "for_each f (x # xs) st = (case f x st of Inl e \<Rightarrow> Inl e | Inr st' \<Rightarrow> for_each f xs st')"

definition setActiveIntervals :: "rounding \<Rightarrow> looper \<Rightarrow> error + looper" where
  "setActiveIntervals r st = for_each (set_active r) intervalTypes st"


subsection \<open>getVolume\<close>

text \<open>\<^verbatim>\<open>interpolateNumber(a, b)(t)\<close> of d3-interpolate is \<^verbatim>\<open>a * (1 - t) + b * t\<close>.\<close>

definition interpolateNumber :: "rounding \<Rightarrow> number \<Rightarrow> number \<Rightarrow> number \<Rightarrow> number" where
  "interpolateNumber r a b t = js_add r (js_mul r a (js_sub r (Num 1) t)) (js_mul r b t)"

definition getVolume :: "rounding \<Rightarrow> looper \<Rightarrow> active \<Rightarrow> number" where
  "getVolume r st iv =
     (if \<not> index iv + 1 < length (trackAnalysis st Segments) then Num 0
      else
        let next = loudness_start (trackAnalysis st Segments ! (index iv + 1));
            current = js_add r (start iv) (elapsed iv)
        in
          if js_lt (elapsed iv) (loudness_max_time iv) then
            let prog = Math_max (Math_min (Num 1)
                         (js_div r (elapsed iv) (loudness_max_time iv))) (Num 0)
            in interpolateNumber r (loudness_start iv) (loudness_max iv) prog
          else
            let start' = js_add r (start iv) (loudness_max_time iv);
                elapsed' = js_sub r current start';
                duration' = js_sub r (duration iv) (loudness_max_time iv);
                prog = Math_max (Math_min (Num 1) (js_div r elapsed' duration')) (Num 0)
            in interpolateNumber r (loudness_max iv) next prog)"

text \<open>
  The call \<^verbatim>\<open>this.getVolume()\<close>: the argument defaults to the active segment. For the
  initial object \<^verbatim>\<open>{}\<close> the index is undefined, \<^verbatim>\<open>segments[undefined + 1]\<close> is undefined,
  and the call returns 0.
\<close>

definition getVolume_default :: "rounding \<Rightarrow> looper \<Rightarrow> number" where
  "getVolume_default r st =
     (case activeIntervals st Segments of None \<Rightarrow> Num 0 | Some iv \<Rightarrow> getVolume r st iv)"


subsection \<open>Volume queues\<close>

definition registerQueue :: "string \<Rightarrow> int \<Rightarrow> int \<Rightarrow> string option \<Rightarrow> looper \<Rightarrow> looper" where
  "registerQueue name ts sm md st =
     st\<lparr>volumeQueues :=
          AList.update name
            \<lparr> totalSamples = ts, smoothing = sm, values = [Num 0, Num 1],
              volume = Number (Num (1 / 2)), average = Number (Num (1 / 2)),
              min_q = Number (Num 0), max_q = Number (Num 1),
              mode = (case md of None \<Rightarrow> ''average'' | Some m \<Rightarrow> m) \<rparr>
            (volumeQueues st)\<rparr>"

text \<open>
  \<^verbatim>\<open>average\<close> of \<^verbatim>\<open>../utils/array\<close> and \<^verbatim>\<open>min\<close>, \<^verbatim>\<open>max\<close>, \<^verbatim>\<open>scaleLinear\<close> of d3 are not among
  the sources: they are parameters of the model. \<open>lib_scale lib a b x\<close> stands for
  \<^verbatim>\<open>scaleLinear().domain([a, b])(x)\<close>.
\<close>

record library =
  lib_average :: "number list \<Rightarrow> jsval"
  lib_min :: "number list \<Rightarrow> jsval"
  lib_max :: "number list \<Rightarrow> jsval"
  lib_scale :: "jsval \<Rightarrow> jsval \<Rightarrow> jsval \<Rightarrow> jsval"

text \<open>
  The loop \<^verbatim>\<open>while (queue.values.length > queue.totalSamples) queue.values.pop()\<close>.
  \<^verbatim>\<open>pop\<close> leaves an empty array empty, so the loop does not end for a negative
  \<^verbatim>\<open>totalSamples\<close>: \<open>None\<close> is the call that does not return.
\<close>

partial_function (option) evict :: "number list \<Rightarrow> int \<Rightarrow> number list option" where
  "evict vs c = (if int (length vs) > c then evict (butlast vs) c else Some vs)"

text \<open>\<^verbatim>\<open>vs.slice(0, k)\<close>: a negative \<open>k\<close> counts from the end of the array.\<close>

definition slice0 :: "'a list \<Rightarrow> int \<Rightarrow> 'a list" where
  "slice0 vs k = (if k < 0 then take (nat (int (length vs) + k)) vs else take (nat k) vs)"

text \<open>The body of the loop of \<^verbatim>\<open>processVolumeQueues\<close> for one queue.\<close>

definition process_queue :: "library \<Rightarrow> number \<Rightarrow> queue \<Rightarrow> queue option" where
  "process_queue lib v q =
     (case evict (v # values q) (totalSamples q) of
        None \<Rightarrow> None
      | Some vs \<Rightarrow>
          let avg = lib_average lib vs;
              mn = lib_min lib vs;
              mx = lib_max lib vs;
              latest = lib_average lib (slice0 vs (smoothing q))
          in Some (q\<lparr>values := vs, average := avg, min_q := mn, max_q := mx,
                     volume := lib_scale lib mn (if mode q = ''average'' then avg else mx) latest\<rparr>))"

fun process_queues ::
  "library \<Rightarrow> number \<Rightarrow> (string \<times> queue) list \<Rightarrow> (string \<times> queue) list option" where
  "process_queues lib v [] = Some []"
| "process_queues lib v ((k, q) # rest) =
     (case process_queue lib v q of
        None \<Rightarrow> None
      | Some q' \<Rightarrow>
          (case process_queues lib v rest of
             None \<Rightarrow> None
           | Some rest' \<Rightarrow> Some ((k, q') # rest')))"

definition processVolumeQueues :: "rounding \<Rightarrow> library \<Rightarrow> looper \<Rightarrow> looper option" where
  "processVolumeQueues r lib st =
     (case process_queues lib (getVolume_default r st) (volumeQueues st) of
        None \<Rightarrow> None
      | Some qs \<Rightarrow> Some (st\<lparr>volumeQueues := qs\<rparr>))"

text \<open>
  \<^verbatim>\<open>this.state.volumeQueues[name].volume\<close>. The dictionary is a plain object: a name
  without a queue is looked up on its prototype, \<^verbatim>\<open>Object.prototype\<close>. For a property of
  the prototype the lookup gives a function or an object, whose \<^verbatim>\<open>.volume\<close> is undefined;
  for any other name the lookup gives \<^verbatim>\<open>undefined\<close>, and reading \<^verbatim>\<open>.volume\<close> of it throws
  a \<^verbatim>\<open>TypeError\<close>. (An assignment to the name \<^verbatim>\<open>__proto__\<close> replaces that prototype; the
  model does not follow the dictionary beyond such a registration.)
\<close>

definition object_prototype_names :: "string list" where
  "object_prototype_names =
     [''constructor'', ''__defineGetter__'', ''__defineSetter__'', ''hasOwnProperty'',
      ''__lookupGetter__'', ''__lookupSetter__'', ''isPrototypeOf'',
      ''propertyIsEnumerable'', ''toString'', ''valueOf'', ''__proto__'',
      ''toLocaleString'']"

definition getVolumeQueue :: "looper \<Rightarrow> string \<Rightarrow> error + jsval" where
  "getVolumeQueue st name =
     (case map_of (volumeQueues st) name of
        Some q \<Rightarrow> Inr (volume q)
      | None \<Rightarrow>
          if name \<in> set object_prototype_names then Inr Undefined else Inl TypeError)"

definition resetVolumeQueues :: "looper \<Rightarrow> looper" where
  "resetVolumeQueues st =
     st\<lparr>volumeQueues :=
          map (\<lambda>(k, q). (k, q\<lparr>volume := Number (Num (1 / 2)), average := Number (Num (1 / 2)),
                               min_q := Number (Num 0), max_q := Number (Num 1),
                               values := [Num 0, Num 1]\<rparr>))
            (volumeQueues st)\<rparr>"


subsection \<open>tick\<close>

text \<open>
  One tick. Scheduling the next frame is left to the host. \<open>None\<close> is a tick that does
  not return, \<open>Some (Inl e)\<close> one that stops with \<open>e\<close>.
\<close>

definition tick ::
  "rounding \<Rightarrow> library \<Rightarrow> number \<Rightarrow> looper \<Rightarrow> (error + looper) option" where
  "tick r lib now st =
     (case setActiveIntervals r
             (st\<lparr>trackProgress :=
                   js_add r (js_sub r now (initialStart st)) (initialTrackProgress st)\<rparr>) of
        Inl e \<Rightarrow> Some (Inl e)
      | Inr st' \<Rightarrow> map_option Inr (processVolumeQueues r lib st'))"

text \<open>
  Successive runs of the loop of \<^verbatim>\<open>processVolumeQueues\<close> over the queues, one per tick:
  \<open>vs\<close> lists the volumes that \<^verbatim>\<open>getVolume\<close> returned in those ticks, the first tick first.
\<close>

fun process_ticks ::
  "library \<Rightarrow> number list \<Rightarrow> (string \<times> queue) list \<Rightarrow> (string \<times> queue) list option" where
  "process_ticks lib [] qs = Some qs"
| "process_ticks lib (v # vs) qs =
     (case process_queues lib v qs of None \<Rightarrow> None | Some qs' \<Rightarrow> process_ticks lib vs qs')"


subsection \<open>The constructor\<close>

text \<open>
  The state a new Looper starts from: no hooks, the watchers of \<^verbatim>\<open>subscribeHooks\<close>, empty
  active intervals, the synthesized timing map, no queue. The options
  \<^verbatim>\<open>volumeSmoothing\<close> and \<^verbatim>\<open>volumeAverage\<close> and the track features are stored and never
  read by the methods above.
\<close>

definition new_Looper :: "rounding \<Rightarrow> number \<Rightarrow> looper" where
  "new_Looper r staticIntervalBaseDuration =
     (subscribeHooks
        \<lparr> hooks = (\<lambda>_. []), watchers = (\<lambda>_. []), calls = [],
          activeIntervals = (\<lambda>_. None), trackAnalysis = (\<lambda>_. []),
          initialTrackProgress = Num 0, initialStart = Num 0, trackProgress = Num 0,
          volumeQueues = [] \<rparr>)
     \<lparr>trackAnalysis := buildStaticIntervals r staticIntervalBaseDuration\<rparr>"


section \<open>The spec's formulas\<close>

text \<open>The spec's clamp of a fraction to the unit interval; \<^verbatim>\<open>NaN\<close> has no place in it.\<close>

definition unit_clamp :: "number \<Rightarrow> number" where
  "unit_clamp x =
     (if x = NaN then NaN
      else if js_lt x (Num 0) then Num 0
      else if js_lt (Num 1) x then Num 1
      else x)"

text \<open>
  A finite number, and a value that a double can hold: a finite number that the rounding
  leaves as it is, an infinity or \<^verbatim>\<open>NaN\<close>.
\<close>

definition finite_number :: "number \<Rightarrow> bool" where
  "finite_number x = (case x of Num a \<Rightarrow> True | _ \<Rightarrow> False)"

definition representable :: "rounding \<Rightarrow> number \<Rightarrow> bool" where
  "representable r x = (case x of Num a \<Rightarrow> fl r a = Num a | _ \<Rightarrow> True)"

text \<open>
  A number that is a non-negative integer or \<open>+\<infinity>\<close>, and one that is a non-positive
  integer or \<open>-\<infinity>\<close>: what the durations and starts of the synthesized tatums are.
\<close>

definition integral_up :: "number \<Rightarrow> bool" where
  "integral_up x \<longleftrightarrow> x = PInf \<or> (\<exists>m::int. 0 \<le> m \<and> x = Num (of_int m))"

definition integral_down :: "number \<Rightarrow> bool" where
  "integral_down x \<longleftrightarrow> x = NInf \<or> (\<exists>m::int. m \<le> 0 \<and> x = Num (of_int m))"

text \<open>A sequence ordered by \<^verbatim>\<open>start\<close> (the invariant of a timing map).\<close>

definition ordered :: "interval list \<Rightarrow> bool" where
  "ordered analysis = sorted_wrt js_le (map start analysis)"


section \<open>Concrete inputs\<close>

text \<open>
  A small timing map, supplied in place of the synthesized one: three intervals per
  type, laid end to end from 0, lasting 5 (tatums), 10 (segments), 20 (beats),
  80 (bars) and 320 (sections).
\<close>

definition example_interval :: "real \<Rightarrow> real \<Rightarrow> interval" where
  "example_interval s d =
     \<lparr> start = Num s, duration = Num d, loudness_start = Num (- 30),
       loudness_max = Num (- 25), loudness_max_time = Num (d / 2) \<rparr>"

definition example_length :: "granularity \<Rightarrow> real" where
  "example_length t =
     (case t of Tatums \<Rightarrow> 5 | Segments \<Rightarrow> 10 | Beats \<Rightarrow> 20 | Bars \<Rightarrow> 80 | Sections \<Rightarrow> 320)"

definition example_analysis :: "granularity \<Rightarrow> interval list" where
  "example_analysis t =
     [example_interval 0 (example_length t),
      example_interval (example_length t) (example_length t),
      example_interval (2 * example_length t) (example_length t)]"

definition example_looper :: "rounding \<Rightarrow> looper" where
  "example_looper r = (new_Looper r (Num 2000))\<lparr>trackAnalysis := example_analysis\<rparr>"

section \<open>Rounding\<close>

lemma fl_rounding: "double_rounding (fl r)"
  using Rep_rounding [of r] by (simp add: fl_def)

lemma fl_not_NaN: "fl r x \<noteq> NaN"
  using fl_rounding [of r] by (simp add: double_rounding_def)

lemma fl_mono: "x \<le> y \<Longrightarrow> js_le (fl r x) (fl r y)"
  using fl_rounding [of r] by (simp add: double_rounding_def)

lemma fl_int: "abs n \<le> 2 ^ 53 \<Longrightarrow> fl r (of_int n) = Num (of_int n)"
  using fl_rounding [of r] by (simp add: double_rounding_def)

lemma fl_0: "fl r 0 = Num 0"
  using fl_int [of 0 r] by simp

lemma fl_1: "fl r 1 = Num 1"
  using fl_int [of 1 r] by simp

lemma fl_numeral: "numeral k \<le> (2 ^ 53 :: int) \<Longrightarrow> fl r (numeral k) = Num (numeral k)"
  using fl_int [of "numeral k" r] by simp

lemma fl_neg_numeral:
  "numeral k \<le> (2 ^ 53 :: int) \<Longrightarrow> fl r (- numeral k) = Num (- numeral k)"
  using fl_int [of "- numeral k" r] by simp

lemma fl_integral:
  "fl r (of_int n) = PInf \<or> fl r (of_int n) = NInf \<or> (\<exists>m::int. fl r (of_int n) = Num (of_int m))"
  using fl_rounding [of r] by (simp add: double_rounding_def)

lemma fl_accurate:
  "1 / 2 ^ 1022 \<le> abs x \<Longrightarrow> abs x \<le> 2 ^ 1023 \<Longrightarrow>
   \<exists>y. fl r x = Num y \<and> abs (y - x) \<le> abs x / 2 ^ 53"
  using fl_rounding [of r] unfolding double_rounding_def by blast

lemma fl_nonneg: "0 \<le> x \<Longrightarrow> fl r x = PInf \<or> (\<exists>y. fl r x = Num y \<and> 0 \<le> y)"
  using fl_mono [of 0 x r] by (cases "fl r x") (simp_all add: fl_0 js_le_def)

lemma fl_nonpos: "x \<le> 0 \<Longrightarrow> fl r x = NInf \<or> (\<exists>y. fl r x = Num y \<and> y \<le> 0)"
  using fl_mono [of x 0 r] by (cases "fl r x") (simp_all add: fl_0 js_le_def)


section \<open>The synthesized timing map\<close>

declare build_loop.simps [simp del]

lemma build_loop_take:
  "take (length arr) (build_loop r base ty dt i arr) = arr"
proof (induction r base ty dt i arr rule: build_loop.induct)
  case (1 r base ty dt i arr)
  show ?case
  proof (cases "i < 10000")
    case True
    let ?m = "make_interval r base ty (if ty = Tatums then arr else dt) arr i"
    have "take (Suc (length arr)) (build_loop r base ty dt (Suc i) (arr @ [?m])) = arr @ [?m]"
      using "1.IH" [OF True] by simp
    then have "take (length arr) (take (Suc (length arr)) (build_loop r base ty dt (Suc i) (arr @ [?m])))
        = take (length arr) (arr @ [?m])"
      by simp
    then have "take (length arr) (build_loop r base ty dt (Suc i) (arr @ [?m])) = arr"
      by (simp add: min_def)
    then show ?thesis
      using True by (subst build_loop.simps) simp
  next
    case False
    then show ?thesis by (subst build_loop.simps) simp
  qed
qed

lemma build_loop_length:
  "i \<le> 10000 \<Longrightarrow> length (build_loop r base ty dt i arr) = length arr + (10000 - i)"
proof (induction r base ty dt i arr rule: build_loop.induct)
  case (1 r base ty dt i arr)
  show ?case
  proof (cases "i < 10000")
    case True
    then show ?thesis
      using "1.IH" [OF True] by (subst build_loop.simps) simp
  next
    case False
    with "1.prems" show ?thesis by (subst build_loop.simps) simp
  qed
qed

lemma build_loop_nth:
  "length arr = i \<Longrightarrow> i \<le> j \<Longrightarrow> j < 10000 \<Longrightarrow>
   build_loop r base ty dt i arr ! j =
     make_interval r base ty
       (if ty = Tatums then take j (build_loop r base ty dt i arr) else dt)
       (take j (build_loop r base ty dt i arr)) j"
proof (induction r base ty dt i arr rule: build_loop.induct)
  case (1 r base ty dt i arr)
  let ?m = "make_interval r base ty (if ty = Tatums then arr else dt) arr i"
  let ?r = "build_loop r base ty dt (Suc i) (arr @ [?m])"
  from "1.prems" have lt: "i < 10000" by simp
  have unfold: "build_loop r base ty dt i arr = ?r"
    using lt by (subst build_loop.simps) simp
  show ?case
  proof (cases "j = i")
    case True
    have pre: "take (Suc i) ?r = arr @ [?m]"
      using build_loop_take [of "arr @ [?m]" r base ty dt "Suc i"] "1.prems"(1) by simp
    have "take i (take (Suc i) ?r) = take i (arr @ [?m])"
      using pre by simp
    then have t: "take i ?r = arr"
      using "1.prems"(1) by (simp add: min_def)
    have "?r ! i = (take (Suc i) ?r) ! i" by simp
    also have "\<dots> = ?m" using pre "1.prems"(1) by (simp add: nth_append)
    finally have e: "?r ! i = ?m" .
    show ?thesis
      unfolding unfold True by (simp only: t e)
  next
    case False
    with "1.prems" have le: "Suc i \<le> j" by simp
    have len: "length (arr @ [?m]) = Suc i"
      using "1.prems"(1) by simp
    show ?thesis
      unfolding unfold by (rule "1.IH" [OF lt len le "1.prems"(3)])
  qed
qed

lemma bsi_tatums: "buildStaticIntervals r base Tatums = build_loop r base Tatums [] 0 []"
  by (simp add: buildStaticIntervals_def Let_def)

lemma bsi_other:
  "ty \<noteq> Tatums \<Longrightarrow>
   buildStaticIntervals r base ty = build_loop r base ty (buildStaticIntervals r base Tatums) 0 []"
  by (simp add: buildStaticIntervals_def Let_def)

lemma tatums_nth:
  "i < 10000 \<Longrightarrow>
   buildStaticIntervals r base Tatums ! i =
     make_interval r base Tatums (take i (buildStaticIntervals r base Tatums))
       (take i (buildStaticIntervals r base Tatums)) i"
  using build_loop_nth [of "[]" 0 i r base Tatums "[]"]
  by (simp add: bsi_tatums)

lemma other_nth:
  "ty \<noteq> Tatums \<Longrightarrow> i < 10000 \<Longrightarrow>
   buildStaticIntervals r base ty ! i =
     make_interval r base ty (buildStaticIntervals r base Tatums)
       (take i (buildStaticIntervals r base ty)) i"
  using build_loop_nth [of "[]" 0 i r base ty "buildStaticIntervals r base Tatums"]
  by (simp add: bsi_other)

lemma buildStaticIntervals_length:
  "length (buildStaticIntervals r base ty) = 10000"
  by (cases "ty = Tatums") (simp_all add: bsi_tatums bsi_other build_loop_length)

lemma other_start_NaN:
  "ty \<noteq> Tatums \<Longrightarrow> 0 < i \<Longrightarrow> i < 10000 \<Longrightarrow> start (buildStaticIntervals r base ty ! i) = NaN"
proof -
  assume a: "ty \<noteq> Tatums" "0 < i" "i < 10000"
  have "length (take i (buildStaticIntervals r base ty)) = i"
    using a by (simp add: buildStaticIntervals_length)
  with a have "take i (buildStaticIntervals r base ty) \<noteq> []"
    by (metis less_numeral_extra(3) list.size(3))
  then show ?thesis
    using a by (simp add: other_nth make_interval_def to_number_objects_def)
qed

lemma other_start_0:
  "ty \<noteq> Tatums \<Longrightarrow> start (buildStaticIntervals r base ty ! 0) = Num 0"
  by (simp add: other_nth make_interval_def to_number_objects_def fl_0)

lemma tatum_duration:
  "i < 10000 \<Longrightarrow> duration (buildStaticIntervals r base Tatums ! i) = tatumDuration r base i"
  by (simp add: tatums_nth make_interval_def)

lemma tatum_start_0: "start (buildStaticIntervals r base Tatums ! 0) = Num 0"
  by (simp add: tatums_nth make_interval_def tatumStart_def)

lemma tatum_start_Suc:
  "0 < i \<Longrightarrow> i < 10000 \<Longrightarrow>
   start (buildStaticIntervals r base Tatums ! i) =
     Math_round (js_add r (start (buildStaticIntervals r base Tatums ! (i - 1)))
                        (duration (buildStaticIntervals r base Tatums ! (i - 1))))"
  by (simp add: tatums_nth [of i] make_interval_def tatumStart_def buildStaticIntervals_length)

lemma tatumDuration_eq:
  "tatumDuration r base i =
     Math_round (js_mul r base (js_div r (Num (if even i then 2 else 1)) (Num 3)))"
  by (simp add: tatumDuration_def duration_tatums_def even_iff_mod_2_eq_zero)

lemma Math_round_int: "Math_round (Num (of_int k)) = Num (of_int k)"
proof -
  have "\<lfloor>(of_int k :: real) + 1 / 2\<rfloor> = k" by linarith
  then show ?thesis by simp
qed

lemma integral_up_not_NaN: "integral_up x \<Longrightarrow> x \<noteq> NaN"
  by (auto simp add: integral_up_def)

lemma integral_down_not_NaN: "integral_down x \<Longrightarrow> x \<noteq> NaN"
  by (auto simp add: integral_down_def)

lemma integral_up_round: "integral_up x \<Longrightarrow> Math_round x = x"
  by (cases x) (auto simp add: integral_up_def Math_round_int)

lemma integral_down_round: "integral_down x \<Longrightarrow> Math_round x = x"
  by (cases x) (auto simp add: integral_down_def Math_round_int)

lemma integral_up_fl:
  assumes "0 \<le> n"
  shows "integral_up (fl r (of_int n))"
proof (cases "fl r (of_int n) = PInf")
  case True
  then show ?thesis by (simp add: integral_up_def)
next
  case False
  from assms have "(0::real) \<le> of_int n" by simp
  with False obtain y where y: "fl r (of_int n) = Num y" "0 \<le> y"
    using fl_nonneg [of "of_int n" r] by blast
  with fl_integral [of r n] obtain m :: int where m: "fl r (of_int n) = Num (of_int m)"
    by auto
  with y have "0 \<le> m" by simp
  with m show ?thesis unfolding integral_up_def by blast
qed

lemma integral_down_fl:
  assumes "n \<le> 0"
  shows "integral_down (fl r (of_int n))"
proof (cases "fl r (of_int n) = NInf")
  case True
  then show ?thesis by (simp add: integral_down_def)
next
  case False
  from assms have "of_int n \<le> (0::real)" by simp
  with False obtain y where y: "fl r (of_int n) = Num y" "y \<le> 0"
    using fl_nonpos [of "of_int n" r] by blast
  with fl_integral [of r n] obtain m :: int where m: "fl r (of_int n) = Num (of_int m)"
    by auto
  with y have "m \<le> 0" by simp
  with m show ?thesis unfolding integral_down_def by blast
qed

lemma integral_up_add:
  assumes "integral_up x" and "integral_up y"
  shows "integral_up (js_add r x y)"
proof (cases "x = PInf \<or> y = PInf")
  case True
  with assms show ?thesis
    by (cases x; cases y) (auto simp add: integral_up_def)
next
  case False
  with assms obtain m k :: int where "0 \<le> m" "0 \<le> k" "x = Num (of_int m)" "y = Num (of_int k)"
    by (auto simp add: integral_up_def)
  then have "js_add r x y = fl r (of_int (m + k))" "0 \<le> m + k" by simp_all
  then show ?thesis using integral_up_fl by metis
qed

lemma integral_down_add:
  assumes "integral_down x" and "integral_down y"
  shows "integral_down (js_add r x y)"
proof (cases "x = NInf \<or> y = NInf")
  case True
  with assms show ?thesis
    by (cases x; cases y) (auto simp add: integral_down_def)
next
  case False
  with assms obtain m k :: int where "m \<le> 0" "k \<le> 0" "x = Num (of_int m)" "y = Num (of_int k)"
    by (auto simp add: integral_down_def)
  then have "js_add r x y = fl r (of_int (m + k))" "m + k \<le> 0" by simp_all
  then show ?thesis using integral_down_fl by metis
qed

lemma round_nonneg:
  assumes "fl r x = PInf \<or> (\<exists>y. fl r x = Num y \<and> 0 \<le> y)"
  shows "integral_up (Math_round (fl r x))"
proof (cases "fl r x = PInf")
  case True
  then show ?thesis by (simp add: integral_up_def)
next
  case False
  with assms obtain y where y: "fl r x = Num y" "0 \<le> y" by blast
  then have "0 \<le> \<lfloor>y + 1 / 2\<rfloor>" by simp
  with y show ?thesis by (auto simp add: integral_up_def)
qed

lemma round_nonpos:
  assumes "fl r x = NInf \<or> (\<exists>y. fl r x = Num y \<and> y \<le> 0)"
  shows "integral_down (Math_round (fl r x))"
proof (cases "fl r x = NInf")
  case True
  then show ?thesis by (simp add: integral_down_def)
next
  case False
  with assms obtain y where y: "fl r x = Num y" "y \<le> 0" by blast
  then have "\<lfloor>y + 1 / 2\<rfloor> \<le> 0" by (simp add: floor_le_iff)
  with y show ?thesis by (auto simp add: integral_down_def)
qed

lemma fl_close:
  assumes "1 / 4 \<le> x" and "x \<le> 4096"
  shows "\<exists>y. fl r x = Num y \<and> abs (y - x) \<le> x / 1000000"
proof -
  have lo: "1 / 2 ^ 1022 \<le> abs x"
  proof -
    have "(1::real) / 2 ^ 1022 \<le> 1 / 2 ^ 2"
      by (intro divide_left_mono power_increasing) simp_all
    with assms(1) show ?thesis by simp
  qed
  have hi: "abs x \<le> 2 ^ 1023"
  proof -
    have "(2::real) ^ 12 \<le> 2 ^ 1023" by (intro power_increasing) simp_all
    with assms show ?thesis by simp
  qed
  obtain y where y: "fl r x = Num y" "abs (y - x) \<le> abs x / 2 ^ 53"
    using fl_accurate [OF lo hi] by blast
  have "abs x / 2 ^ 53 \<le> x / 1000000"
    using assms(1) by simp
  with y show ?thesis by auto
qed

lemma fl_third_pos:
  "\<exists>y. js_div r (Num (if even i then 2 else 1)) (Num 3) = Num y \<and> 0 < y"
proof (cases "even i")
  case True
  obtain y where y: "fl r (2 / 3) = Num y" "abs (y - 2 / 3) \<le> (2 / 3) / 1000000"
    using fl_close [of "2 / 3" r] by auto
  from y(2) have "0 < y" by linarith
  with y(1) True show ?thesis by simp
next
  case False
  obtain y where y: "fl r (1 / 3) = Num y" "abs (y - 1 / 3) \<le> (1 / 3) / 1000000"
    using fl_close [of "1 / 3" r] by auto
  from y(2) have "0 < y" by linarith
  with y(1) False show ?thesis by simp
qed

lemma tatumDuration_up:
  assumes "base = PInf \<or> (\<exists>b. base = Num b \<and> 0 \<le> b)"
  shows "integral_up (tatumDuration r base i)"
proof -
  obtain y where y: "js_div r (Num (if even i then 2 else 1)) (Num 3) = Num y" "0 < y"
    using fl_third_pos by blast
  show ?thesis
  proof (cases "base = PInf")
    case True
    with y show ?thesis
      unfolding tatumDuration_eq y(1) by (simp add: signed_inf_def integral_up_def)
  next
    case False
    with assms obtain b where b: "base = Num b" "0 \<le> b" by blast
    have "0 \<le> b * y" using b y by simp
    then have "integral_up (Math_round (fl r (b * y)))"
      by (intro round_nonneg fl_nonneg)
    then show ?thesis unfolding tatumDuration_eq y(1) b(1) by simp
  qed
qed

lemma tatumDuration_down:
  assumes "base = NInf \<or> (\<exists>b. base = Num b \<and> b \<le> 0)"
  shows "integral_down (tatumDuration r base i)"
proof -
  obtain y where y: "js_div r (Num (if even i then 2 else 1)) (Num 3) = Num y" "0 < y"
    using fl_third_pos by blast
  show ?thesis
  proof (cases "base = NInf")
    case True
    with y show ?thesis
      unfolding tatumDuration_eq y(1) by (simp add: signed_inf_def integral_down_def)
  next
    case False
    with assms obtain b where b: "base = Num b" "b \<le> 0" by blast
    have "b * y \<le> 0" using b y by (simp add: mult_nonpos_nonneg)
    then have "integral_down (Math_round (fl r (b * y)))"
      by (intro round_nonpos fl_nonpos)
    then show ?thesis unfolding tatumDuration_eq y(1) b(1) by simp
  qed
qed

lemma tatumDuration_NaN: "tatumDuration r NaN i = NaN"
  unfolding tatumDuration_eq by simp

lemma tatum_start_up:
  assumes "base = PInf \<or> (\<exists>b. base = Num b \<and> 0 \<le> b)"
  shows "i < 10000 \<Longrightarrow> integral_up (start (buildStaticIntervals r base Tatums ! i))"
proof (induction i)
  case 0
  show ?case by (simp add: tatum_start_0 integral_up_def)
next
  case (Suc i)
  then have s: "integral_up (start (buildStaticIntervals r base Tatums ! i))" by simp
  have d: "integral_up (duration (buildStaticIntervals r base Tatums ! i))"
    using Suc.prems assms by (simp add: tatum_duration tatumDuration_up)
  show ?case
    using Suc.prems integral_up_add [OF s d, of r]
    by (simp add: tatum_start_Suc integral_up_round)
qed

lemma tatum_start_down:
  assumes "base = NInf \<or> (\<exists>b. base = Num b \<and> b \<le> 0)"
  shows "i < 10000 \<Longrightarrow> integral_down (start (buildStaticIntervals r base Tatums ! i))"
proof (induction i)
  case 0
  show ?case by (simp add: tatum_start_0 integral_down_def)
next
  case (Suc i)
  then have s: "integral_down (start (buildStaticIntervals r base Tatums ! i))" by simp
  have d: "integral_down (duration (buildStaticIntervals r base Tatums ! i))"
    using Suc.prems assms by (simp add: tatum_duration tatumDuration_down)
  show ?case
    using Suc.prems integral_down_add [OF s d, of r]
    by (simp add: tatum_start_Suc integral_down_round)
qed

lemma js_add_NaN: "js_add r x NaN = NaN"
  by (cases x) simp_all

lemma tatum_start_cumulative:
  assumes "0 < i" "i < 10000"
  shows "start (buildStaticIntervals r base Tatums ! i) =
     js_add r (start (buildStaticIntervals r base Tatums ! (i - 1)))
              (duration (buildStaticIntervals r base Tatums ! (i - 1))) \<and>
     (start (buildStaticIntervals r base Tatums ! i) = NaN \<longleftrightarrow> base = NaN)"
proof -
  from assms have lt: "i - 1 < 10000" by simp
  consider (up) "base = PInf \<or> (\<exists>b. base = Num b \<and> 0 \<le> b)"
    | (down) "base = NInf \<or> (\<exists>b. base = Num b \<and> b \<le> 0)"
    | (nan) "base = NaN"
  proof (cases base)
    case (Num b)
    then show ?thesis using that(1) [OF disjI2] that(2) [OF disjI2] by (cases "0 \<le> b") auto
  qed auto
  then show ?thesis
  proof cases
    case up
    have s: "integral_up (start (buildStaticIntervals r base Tatums ! (i - 1)))"
      using up lt by (rule tatum_start_up)
    have d: "integral_up (duration (buildStaticIntervals r base Tatums ! (i - 1)))"
      using up lt by (simp add: tatum_duration tatumDuration_up)
    have "start (buildStaticIntervals r base Tatums ! i) =
       js_add r (start (buildStaticIntervals r base Tatums ! (i - 1)))
                (duration (buildStaticIntervals r base Tatums ! (i - 1)))"
      using assms integral_up_add [OF s d, of r]
      by (simp add: tatum_start_Suc integral_up_round)
    moreover have "start (buildStaticIntervals r base Tatums ! i) \<noteq> NaN"
      using up assms(2) by (intro integral_up_not_NaN tatum_start_up)
    moreover have "base \<noteq> NaN" using up by auto
    ultimately show ?thesis by simp
  next
    case down
    have s: "integral_down (start (buildStaticIntervals r base Tatums ! (i - 1)))"
      using down lt by (rule tatum_start_down)
    have d: "integral_down (duration (buildStaticIntervals r base Tatums ! (i - 1)))"
      using down lt by (simp add: tatum_duration tatumDuration_down)
    have "start (buildStaticIntervals r base Tatums ! i) =
       js_add r (start (buildStaticIntervals r base Tatums ! (i - 1)))
                (duration (buildStaticIntervals r base Tatums ! (i - 1)))"
      using assms integral_down_add [OF s d, of r]
      by (simp add: tatum_start_Suc integral_down_round)
    moreover have "start (buildStaticIntervals r base Tatums ! i) \<noteq> NaN"
      using down assms(2) by (intro integral_down_not_NaN tatum_start_down)
    moreover have "base \<noteq> NaN" using down by auto
    ultimately show ?thesis by simp
  next
    case nan
    have d: "duration (buildStaticIntervals r base Tatums ! (i - 1)) = NaN"
      using lt nan by (simp add: tatum_duration tatumDuration_NaN)
    have "start (buildStaticIntervals r base Tatums ! i) =
       Math_round (js_add r (start (buildStaticIntervals r base Tatums ! (i - 1)))
                          (duration (buildStaticIntervals r base Tatums ! (i - 1))))"
      using assms by (rule tatum_start_Suc)
    then have "start (buildStaticIntervals r base Tatums ! i) = NaN"
      unfolding d js_add_NaN by simp
    with d nan show ?thesis by (simp add: js_add_NaN)
  qed
qed

lemma two_thirds_of_2000:
  "\<exists>z. js_mul r (Num 2000) (js_div r (Num 2) (Num 3)) = Num z \<and> 1333 < z \<and> z < 2667 / 2"
proof -
  obtain y where y: "fl r (2 / 3) = Num y" "abs (y - 2 / 3) \<le> (2 / 3) / 1000000"
    using fl_close [of "2 / 3" r] by auto
  from y(2) have yb: "1 / 4 \<le> 2000 * y" "2000 * y \<le> 4096" by linarith+
  obtain z where z: "fl r (2000 * y) = Num z" "abs (z - 2000 * y) \<le> (2000 * y) / 1000000"
    using fl_close [OF yb, of r] by auto
  from y(2) z(2) have "1333 < z \<and> z < 2667 / 2" by linarith
  with y(1) z(1) show ?thesis by simp
qed

lemma one_third_of_2000:
  "\<exists>z. js_mul r (Num 2000) (js_div r (Num 1) (Num 3)) = Num z \<and> 1333 / 2 < z \<and> z < 667"
proof -
  obtain y where y: "fl r (1 / 3) = Num y" "abs (y - 1 / 3) \<le> (1 / 3) / 1000000"
    using fl_close [of "1 / 3" r] by auto
  from y(2) have yb: "1 / 4 \<le> 2000 * y" "2000 * y \<le> 4096" by linarith+
  obtain z where z: "fl r (2000 * y) = Num z" "abs (z - 2000 * y) \<le> (2000 * y) / 1000000"
    using fl_close [OF yb, of r] by auto
  from y(2) z(2) have "1333 / 2 < z \<and> z < 667" by linarith
  with y(1) z(1) show ?thesis by simp
qed

lemma tatumDuration_2000_even: "even i \<Longrightarrow> tatumDuration r (Num 2000) i = Num 1333"
proof -
  assume e: "even i"
  obtain z where z: "js_mul r (Num 2000) (js_div r (Num 2) (Num 3)) = Num z" "1333 < z" "z < 2667 / 2"
    using two_thirds_of_2000 by blast
  then have "\<lfloor>z + 1 / 2\<rfloor> = 1333" by linarith
  with e z(1) show ?thesis unfolding tatumDuration_eq by simp
qed

lemma tatumDuration_2000_odd: "odd i \<Longrightarrow> tatumDuration r (Num 2000) i = Num 667"
proof -
  assume e: "odd i"
  obtain z where z: "js_mul r (Num 2000) (js_div r (Num 1) (Num 3)) = Num z" "1333 / 2 < z" "z < 667"
    using one_third_of_2000 by blast
  then have "\<lfloor>z + 1 / 2\<rfloor> = 667" by linarith
  with e z(1) show ?thesis unfolding tatumDuration_eq by simp
qed


section \<open>Interval resolution\<close>

lemma example_ordered: "ordered (example_analysis t)"
  by (cases t)
    (simp_all add: ordered_def example_analysis_def example_interval_def example_length_def
      js_le_def)

lemma watchers_subscribeHooks:
  "watchers (subscribeHooks st) = (\<lambda>t. watchers st t @ [Run_hooks Segments])"
proof
  fix t show "watchers (subscribeHooks st) t = watchers st t @ [Run_hooks Segments]"
    by (cases t) (simp_all add: subscribeHooks_def intervalTypes_def watch_active_def)
qed

lemma subscribeHooks_eq:
  "subscribeHooks st = st\<lparr>watchers := (\<lambda>t. watchers st t @ [Run_hooks Segments])\<rparr>"
proof -
  have "subscribeHooks st = st\<lparr>watchers := watchers (subscribeHooks st)\<rparr>"
    by (simp add: subscribeHooks_def intervalTypes_def watch_active_def)
  then show ?thesis by (simp add: watchers_subscribeHooks)
qed

lemma example_looper_eq:
  "example_looper r =
     \<lparr> hooks = (\<lambda>_. []), watchers = (\<lambda>_. [Run_hooks Segments]), calls = [],
       activeIntervals = (\<lambda>_. None), trackAnalysis = example_analysis,
       initialTrackProgress = Num 0, initialStart = Num 0, trackProgress = Num 0,
       volumeQueues = [] \<rparr>"
  by (simp add: example_looper_def new_Looper_def subscribeHooks_eq)

lemma example_analysis_simps:
  "length (example_analysis t) = 3"
  "start (example_analysis t ! 0) = Num 0"
  "start (example_analysis t ! 1) = Num (example_length t)"
  "start (example_analysis t ! Suc 0) = Num (example_length t)"
  "start (example_analysis t ! 2) = Num (2 * example_length t)"
  "start (last (example_analysis t)) = Num (2 * example_length t)"
  "duration (last (example_analysis t)) = Num (example_length t)"
  by (simp_all add: example_analysis_def example_interval_def)

lemma determine_example:
  "determine_loop (example_analysis t) (Num p) 0 =
     Inr (Some (if 0 < p \<and> p < example_length t then 0
                else if example_length t < p \<and> p < 2 * example_length t then 1 else 2))"
  by (simp add: determine_loop.simps example_analysis_def example_interval_def)

declare determine_loop.simps [simp del]

lemma js_lt_irrefl: "\<not> js_lt a a"
  by (cases a) simp_all

lemma js_le_trans_not_lt: "js_le a b \<Longrightarrow> js_le b c \<Longrightarrow> \<not> js_lt c a"
  by (cases a; cases b; cases c) (simp_all add: js_le_def)

lemma determine_loop_last:
  assumes "i < length xs"
    and "\<And>j. i \<le> j \<Longrightarrow> Suc j < length xs \<Longrightarrow>
           \<not> (js_lt (start (xs ! j)) p \<and> js_lt p (start (xs ! Suc j)))"
  shows "determine_loop xs p i = Inr (Some (length xs - 1))"
  using assms
proof (induction xs p i rule: determine_loop.induct)
  case (1 analysis p i)
  show ?case
  proof (cases "i = length analysis - 1")
    case True
    with "1.prems"(1) show ?thesis by (subst determine_loop.simps) simp
  next
    case False
    with "1.prems"(1) have suc: "Suc i < length analysis" by simp
    have no: "\<not> (js_lt (start (analysis ! i)) p \<and> js_lt p (start (analysis ! Suc i)))"
      using "1.prems"(2) [of i] suc by simp
    have rest: "\<And>j. Suc i \<le> j \<Longrightarrow> Suc j < length analysis \<Longrightarrow>
           \<not> (js_lt (start (analysis ! j)) p \<and> js_lt p (start (analysis ! Suc j)))"
      using "1.prems"(2) by simp
    show ?thesis
    proof (cases "js_lt (start (analysis ! i)) p")
      case True
      with no have n2: "\<not> js_lt p (start (analysis ! Suc i))" by simp
      have "determine_loop analysis p (Suc i) = Inr (Some (length analysis - 1))"
        using "1.IH"(1) [OF "1.prems"(1) False True suc n2 suc rest] .
      then show ?thesis
        using "1.prems"(1) False True suc n2 by (subst determine_loop.simps) simp
    next
      case nlt: False
      have "determine_loop analysis p (Suc i) = Inr (Some (length analysis - 1))"
        using "1.IH"(2) [OF "1.prems"(1) False nlt suc rest] .
      then show ?thesis
        using "1.prems"(1) False nlt by (subst determine_loop.simps) simp
    qed
  qed
qed

lemma determine_loop_in_range:
  "i < length xs \<Longrightarrow> \<exists>k. determine_loop xs p i = Inr (Some k) \<and> i \<le> k \<and> k < length xs"
proof (induction xs p i rule: determine_loop.induct)
  case (1 analysis p i)
  show ?case
  proof (cases "i = length analysis - 1")
    case True
    with "1.prems"(1) show ?thesis by (subst determine_loop.simps) simp
  next
    case False
    with "1.prems"(1) have suc: "Suc i < length analysis" by simp
    show ?thesis
    proof (cases "js_lt (start (analysis ! i)) p")
      case True
      show ?thesis
      proof (cases "js_lt p (start (analysis ! Suc i))")
        case t2: True
        then show ?thesis
          using "1.prems"(1) False True suc by (subst determine_loop.simps) simp
      next
        case n2: False
        obtain k where "determine_loop analysis p (Suc i) = Inr (Some k)" "Suc i \<le> k" "k < length analysis"
          using "1.IH"(1) [OF "1.prems"(1) False True suc n2 suc] by blast
        then show ?thesis
          using "1.prems"(1) False True suc n2 by (subst determine_loop.simps) auto
      qed
    next
      case nlt: False
      obtain k where "determine_loop analysis p (Suc i) = Inr (Some k)" "Suc i \<le> k" "k < length analysis"
         using "1.IH"(2) [OF "1.prems"(1) False nlt suc] by blast
      then show ?thesis
        using "1.prems"(1) False nlt by (subst determine_loop.simps) auto
    qed
  qed
qed

lemma ordered_nth:
  "ordered xs \<Longrightarrow> i < j \<Longrightarrow> j < length xs \<Longrightarrow> js_le (start (xs ! i)) (start (xs ! j))"
  by (simp add: ordered_def sorted_wrt_iff_nth_less)

lemma determine_loop_beyond:
  assumes ne: "xs \<noteq> []" and ord: "ordered xs" and le: "js_le (start (last xs)) p"
  shows "determine_loop xs p 0 = Inr (Some (length xs - 1))"
proof (rule determine_loop_last)
  show "0 < length xs" using ne by simp
next
  fix j assume "0 \<le> j" and suc: "Suc j < length xs"
  have lst: "last xs = xs ! (length xs - 1)"
    using ne by (simp add: last_conv_nth)
  have "\<not> js_lt p (start (xs ! Suc j))"
  proof (cases "Suc j = length xs - 1")
    case True
    with le lst show ?thesis by (simp add: js_le_def)
  next
    case False
    with suc have "Suc j < length xs - 1" by simp
    then have "js_le (start (xs ! Suc j)) (start (xs ! (length xs - 1)))"
      using ord ne by (intro ordered_nth) simp_all
    with le lst show ?thesis
      using js_le_trans_not_lt by metis
  qed
  then show "\<not> (js_lt (start (xs ! j)) p \<and> js_lt p (start (xs ! Suc j)))" by simp
qed

lemma determine_loop_boundary:
  assumes ord: "ordered xs" and i: "i < length xs"
  shows "determine_loop xs (start (xs ! i)) 0 = Inr (Some (length xs - 1))"
proof (rule determine_loop_last)
  show "0 < length xs" using i by (cases xs) simp_all
next
  fix j assume "0 \<le> j" and suc: "Suc j < length xs"
  let ?p = "start (xs ! i)"
  consider "Suc j < i" | "Suc j = i" | "j = i" | "i < j" by linarith
  then show "\<not> (js_lt (start (xs ! j)) ?p \<and> js_lt ?p (start (xs ! Suc j)))"
  proof cases
    case 1
    then have "js_le (start (xs ! Suc j)) ?p"
      using ord i by (intro ordered_nth) simp_all
    then show ?thesis by (simp add: js_le_def)
  next
    case 2
    then show ?thesis by (simp add: js_lt_irrefl)
  next
    case 3
    then show ?thesis by (simp add: js_lt_irrefl)
  next
    case 4
    then have "js_le ?p (start (xs ! j))"
      using ord suc by (intro ordered_nth) simp_all
    then show ?thesis by (simp add: js_le_def)
  qed
qed


section \<open>The volume sampler\<close>

lemma clamp_unit: "Math_max (Math_min (Num 1) x) (Num 0) = unit_clamp x"
  by (cases x) (simp_all add: Math_min_def Math_max_def unit_clamp_def)

lemma unit_clamp_range: "x \<noteq> NaN \<Longrightarrow> \<exists>t. unit_clamp x = Num t \<and> 0 \<le> t \<and> t \<le> 1"
  by (cases x) (simp_all add: unit_clamp_def)

lemma unit_clamp_low: "js_le x (Num 0) \<Longrightarrow> unit_clamp x = Num 0"
  by (cases x) (auto simp add: unit_clamp_def js_le_def)

lemma unit_clamp_high: "js_le (Num 1) x \<Longrightarrow> unit_clamp x = Num 1"
  by (cases x) (auto simp add: unit_clamp_def js_le_def)

lemma interpolateNumber_NaN: "interpolateNumber r a b NaN = NaN"
  by (cases a; cases b) (simp_all add: interpolateNumber_def js_sub_def)

lemma interpolateNumber_0:
  "representable r a \<Longrightarrow> finite_number b \<Longrightarrow> interpolateNumber r a b (Num 0) = a"
  by (cases a; cases b)
    (simp_all add: interpolateNumber_def js_sub_def representable_def finite_number_def
      fl_0 fl_1 signed_inf_def)

lemma interpolateNumber_1:
  "finite_number a \<Longrightarrow> representable r b \<Longrightarrow> interpolateNumber r a b (Num 1) = b"
  by (cases a; cases b)
    (simp_all add: interpolateNumber_def js_sub_def representable_def finite_number_def
      fl_0 fl_1 signed_inf_def)

lemma getVolume_phases:
  "index iv + 1 < length (trackAnalysis st Segments) \<Longrightarrow>
   getVolume r st iv =
     (if js_lt (elapsed iv) (loudness_max_time iv)
      then interpolateNumber r (loudness_start iv) (loudness_max iv)
             (unit_clamp (js_div r (elapsed iv) (loudness_max_time iv)))
      else interpolateNumber r (loudness_max iv)
             (loudness_start (trackAnalysis st Segments ! (index iv + 1)))
             (unit_clamp
               (js_div r
                 (js_sub r (js_add r (start iv) (elapsed iv))
                           (js_add r (start iv) (loudness_max_time iv)))
                 (js_sub r (duration iv) (loudness_max_time iv)))))"
  by (simp add: getVolume_def Let_def clamp_unit)

lemma getVolume_last:
  "\<not> index iv + 1 < length (trackAnalysis st Segments) \<Longrightarrow> getVolume r st iv = Num 0"
  by (simp add: getVolume_def)

lemma example_active:
  "numeral k \<le> (2 ^ 53 :: int) \<Longrightarrow>
   with_elapsed r (with_index (example_analysis Segments ! 0) 0) (Num (numeral k)) =
     \<lparr> start = Num 0, duration = Num 10, loudness_start = Num (- 30),
       loudness_max = Num (- 25), loudness_max_time = Num 5, index = 0,
       elapsed = Num (numeral k), progress = fl r (numeral k / 10) \<rparr>"
  by (simp add: with_elapsed_def with_index_def example_analysis_def example_interval_def
      example_length_def js_sub_def fl_numeral)

lemma example_active_0:
  "with_elapsed r (with_index (example_analysis Segments ! 0) 0) (Num 0) =
     \<lparr> start = Num 0, duration = Num 10, loudness_start = Num (- 30),
       loudness_max = Num (- 25), loudness_max_time = Num 5, index = 0,
       elapsed = Num 0, progress = Num 0 \<rparr>"
  by (simp add: with_elapsed_def with_index_def example_analysis_def example_interval_def
      example_length_def js_sub_def fl_0)


section \<open>The volume queues\<close>

lemma evict_nonneg: "0 \<le> c \<Longrightarrow> evict vs c = Some (take (nat c) vs)"
proof (induction vs rule: rev_induct)
  case Nil
  then show ?case by (subst evict.simps) simp
next
  case (snoc x xs)
  show ?case
  proof (cases "int (length (xs @ [x])) > c")
    case True
    then have "nat c \<le> length xs" by simp
    then have "take (nat c) (xs @ [x]) = take (nat c) xs" by simp
    with True snoc show ?thesis by (subst evict.simps) simp
  next
    case False
    then have "length (xs @ [x]) \<le> nat c" by simp
    then have "take (nat c) (xs @ [x]) = xs @ [x]" by (simp only: take_all)
    with False show ?thesis by (subst evict.simps) simp
  qed
qed

lemma evict_returns_nonneg: "evict vs c = Some y \<Longrightarrow> 0 \<le> c"
  by (rule evict.raw_induct [where P = "\<lambda>vs c y. 0 \<le> c"]) (auto split: if_splits)

lemma evict_negative: "c < 0 \<Longrightarrow> evict vs c = None"
  using evict_returns_nonneg [of vs c] by (cases "evict vs c") auto

lemma process_queue_nonneg:
  assumes "0 \<le> totalSamples q"
  shows "\<exists>q'. process_queue lib v q = Some q' \<and>
           values q' = take (nat (totalSamples q)) (v # values q) \<and>
           totalSamples q' = totalSamples q"
  using assms by (simp add: process_queue_def evict_nonneg Let_def)

lemma process_queues_nonneg:
  assumes "list_all (\<lambda>(k, q). 0 \<le> totalSamples q) qs"
  shows "\<exists>qs'. process_queues lib v qs = Some qs' \<and>
           list_all (\<lambda>(k, q). 0 \<le> totalSamples q) qs' \<and>
           (\<forall>name q. map_of qs name = Some q \<longrightarrow>
              (\<exists>q'. map_of qs' name = Some q' \<and>
                    values q' = take (nat (totalSamples q)) (v # values q) \<and>
                    totalSamples q' = totalSamples q))"
  using assms
proof (induction qs)
  case Nil
  then show ?case by simp
next
  case (Cons kq qs)
  obtain k q where kq: "kq = (k, q)" by (cases kq)
  from Cons.prems kq have c: "0 \<le> totalSamples q"
    and rest: "list_all (\<lambda>(k, q). 0 \<le> totalSamples q) qs" by simp_all
  obtain q' where q': "process_queue lib v q = Some q'"
      "values q' = take (nat (totalSamples q)) (v # values q)"
      "totalSamples q' = totalSamples q"
    using process_queue_nonneg [OF c] by blast
  obtain qs' where qs': "process_queues lib v qs = Some qs'"
      "list_all (\<lambda>(k, q). 0 \<le> totalSamples q) qs'"
      "\<forall>name q. map_of qs name = Some q \<longrightarrow>
              (\<exists>q'. map_of qs' name = Some q' \<and>
                    values q' = take (nat (totalSamples q)) (v # values q) \<and>
                    totalSamples q' = totalSamples q)"
    using Cons.IH [OF rest] by blast
  have "process_queues lib v (kq # qs) = Some ((k, q') # qs')"
    using kq q'(1) qs'(1) by simp
  moreover have "list_all (\<lambda>(k, q). 0 \<le> totalSamples q) ((k, q') # qs')"
    using qs'(2) q'(3) c by simp
  moreover have "\<forall>name p. map_of (kq # qs) name = Some p \<longrightarrow>
              (\<exists>p'. map_of ((k, q') # qs') name = Some p' \<and>
                    values p' = take (nat (totalSamples p)) (v # values p) \<and>
                    totalSamples p' = totalSamples p)"
    using kq q'(2,3) qs'(3) by auto
  ultimately show ?case by blast
qed

lemma process_ticks_nonneg:
  assumes "list_all (\<lambda>(k, q). 0 \<le> totalSamples q) qs"
    and "map_of qs name = Some q"
    and "vs \<noteq> []"
  shows "\<exists>qs' q'. process_ticks lib vs qs = Some qs' \<and> map_of qs' name = Some q' \<and>
           values q' = take (nat (totalSamples q)) (rev vs @ values q) \<and>
           totalSamples q' = totalSamples q"
  using assms
proof (induction vs arbitrary: qs q)
  case Nil
  then show ?case by simp
next
  case (Cons v vs)
  obtain qs1 q1 where s1: "process_queues lib v qs = Some qs1"
      "list_all (\<lambda>(k, q). 0 \<le> totalSamples q) qs1"
      "map_of qs1 name = Some q1"
      "values q1 = take (nat (totalSamples q)) (v # values q)"
      "totalSamples q1 = totalSamples q"
    using process_queues_nonneg [OF Cons.prems(1), of lib v] Cons.prems(2) by blast
  show ?case
  proof (cases "vs = []")
    case True
    with s1 show ?thesis by simp
  next
    case False
    obtain qs' q' where s2: "process_ticks lib vs qs1 = Some qs'" "map_of qs' name = Some q'"
        "values q' = take (nat (totalSamples q1)) (rev vs @ values q1)"
        "totalSamples q' = totalSamples q1"
      using Cons.IH [OF s1(2) s1(3) False] by blast
    have "take (nat (totalSamples q)) (rev vs @ take (nat (totalSamples q)) (v # values q))
        = take (nat (totalSamples q)) (rev vs @ v # values q)"
      by (simp add: take_append min_def) 
    with s1 s2 show ?thesis by simp
  qed
qed

lemma registerQueue_lookup:
  "map_of (volumeQueues (registerQueue name ts sm md st)) =
     (map_of (volumeQueues st))(name \<mapsto>
        \<lparr> totalSamples = ts, smoothing = sm, values = [Num 0, Num 1],
          volume = Number (Num (1 / 2)), average = Number (Num (1 / 2)),
          min_q = Number (Num 0), max_q = Number (Num 1),
          mode = (case md of None \<Rightarrow> ''average'' | Some m \<Rightarrow> m) \<rparr>)"
  by (simp add: registerQueue_def update_conv')

section \<open>The claims\<close>

text \<open>
  C1 (fails on the code). The claim places interval \<open>i\<close> of every granularity but the
  tatums at \<open>i\<close> times the duration of the granularity. The source multiplies \<open>i\<close> by the
  array under construction instead of the duration: the start is 0 at index 0, where the
  array is still empty, and \<^verbatim>\<open>NaN\<close> at every later index, whatever the base duration.
\<close>

theorem buildStaticIntervals_start_NaN:
  assumes "ty \<noteq> Tatums" and "0 < i" and "i < 10000"
  shows "start (buildStaticIntervals r base ty ! i) = NaN"
  using assms by (rule other_start_NaN)

theorem buildStaticIntervals_start_NaN_witness:
  "\<forall>r. start (buildStaticIntervals r (Num 2000) Beats ! 1) = NaN \<and>
       js_mul r (Num 1) (duration (buildStaticIntervals r (Num 2000) Beats ! 1)) = Num 2000"
proof
  fix r
  have "Beats \<noteq> Tatums" and "(0::nat) < 1" and "(1::nat) < 10000" by simp_all
  then have "start (buildStaticIntervals r (Num 2000) Beats ! 1) = NaN"
    by (rule buildStaticIntervals_start_NaN)
  moreover
  have "js_mul r (Num 1) (duration (buildStaticIntervals r (Num 2000) Beats ! 1)) = Num 2000"
    by (simp add: other_nth make_interval_def duration_of_def fl_numeral)
  ultimately
  show "start (buildStaticIntervals r (Num 2000) Beats ! 1) = NaN \<and>
       js_mul r (Num 1) (duration (buildStaticIntervals r (Num 2000) Beats ! 1)) = Num 2000"
    by simp
qed

text \<open>
  C2 (fails on the code). The claim gives a progress value that equals the start of
  interval \<open>i\<close> to interval \<open>i\<close>. The comparison in the source is strict on both sides, so
  no interval before the last one accepts a progress value on a start boundary: for
  every ordered sequence the resolution then falls through to the last index.
\<close>

theorem determineInterval_on_boundary:
  assumes "ordered (trackAnalysis st t)"
    and "i < length (trackAnalysis st t)"
    and "trackProgress st = start (trackAnalysis st t ! i)"
  shows "determineInterval st t = Inr (Some (length (trackAnalysis st t) - 1))"
  using assms by (simp add: determineInterval_def determine_loop_boundary)

theorem determineInterval_on_boundary_witness:
  "\<forall>r. start (example_analysis Beats ! 1) = Num 20 \<and>
       determineInterval ((example_looper r)\<lparr>trackProgress := Num 20\<rparr>) Beats = Inr (Some 2)"
proof
  fix r
  let ?st = "(example_looper r)\<lparr>trackProgress := Num 20\<rparr>"
  have ta: "trackAnalysis ?st Beats = example_analysis Beats"
    by (simp add: example_looper_eq)
  have h1: "ordered (trackAnalysis ?st Beats)"
    unfolding ta by (rule example_ordered)
  have h2: "1 < length (trackAnalysis ?st Beats)"
    unfolding ta by (simp add: example_analysis_simps)
  have s1: "start (example_analysis Beats ! 1) = Num 20"
    by (simp add: example_analysis_simps example_length_def)
  have h3: "trackProgress ?st = start (trackAnalysis ?st Beats ! 1)"
    unfolding ta s1 by simp
  have "determineInterval ?st Beats = Inr (Some (length (trackAnalysis ?st Beats) - 1))"
    by (rule determineInterval_on_boundary [OF h1 h2 h3])
  then have "determineInterval ?st Beats = Inr (Some 2)"
    unfolding ta by (simp add: example_analysis_simps)
  with s1 show "start (example_analysis Beats ! 1) = Num 20 \<and>
       determineInterval ?st Beats = Inr (Some 2)" by simp
qed

text \<open>
  C3 (fails on the code). The claim has a callback registered by \<^verbatim>\<open>on(g, callback)\<close> run
  when, and only when, the active interval of \<open>g\<close> changes index. Every watcher of
  \<^verbatim>\<open>subscribeHooks\<close> runs the list of the segment hooks. With callback 3 registered on
  the segment and callback 7 on the beat, three calls of \<^verbatim>\<open>setActiveIntervals\<close> at
  progress 2, 7 and 25: the second changes the index of the tatum only and calls the
  segment callback with that tatum; the third moves the beat from index 0 to 1; and all
  nine calls made are calls of callback 3, none of callback 7.
\<close>

theorem hooks_run_segment_list:
  "\<exists>st1 st2 st3.
     setActiveIntervals r
       ((on Beats 7 (on Segments 3 (example_looper r)))\<lparr>trackProgress := Num 2\<rparr>) = Inr st1 \<and>
     setActiveIntervals r (st1\<lparr>trackProgress := Num 7\<rparr>) = Inr st2 \<and>
     setActiveIntervals r (st2\<lparr>trackProgress := Num 25\<rparr>) = Inr st3 \<and>
     hooks st3 Beats = [7] \<and> hooks st3 Segments = [3] \<and>
     map_option index (activeIntervals st1 Tatums) = Some 0 \<and>
     map_option index (activeIntervals st2 Tatums) = Some 1 \<and>
     map_option index (activeIntervals st1 Segments) = Some 0 \<and>
     map_option index (activeIntervals st2 Segments) = Some 0 \<and>
     calls st2 = calls st1 @ [(3, with_index (example_analysis Tatums ! 1) 1)] \<and>
     map_option index (activeIntervals st2 Beats) = Some 0 \<and>
     map_option index (activeIntervals st3 Beats) = Some 1 \<and>
     map fst (calls st3) = [3, 3, 3, 3, 3, 3, 3, 3, 3]"
  by (simp add: setActiveIntervals_def intervalTypes_def set_active_def determineInterval_def
     replace_active_def example_looper_eq on_def determine_example example_length_def
     notify_def run_watcher_def Let_def with_elapsed_def with_index_def current_object_def)

text \<open>
  C4 (amended). For a name that has no queue, \<^verbatim>\<open>getVolumeQueue\<close> throws a \<^verbatim>\<open>TypeError\<close>,
  unless the name is that of a property of \<^verbatim>\<open>Object.prototype\<close>, for which it returns
  \<^verbatim>\<open>undefined\<close>; this in a state where no queue is registered under \<^verbatim>\<open>__proto__\<close>, so
  that the prototype of the dictionary is \<^verbatim>\<open>Object.prototype\<close>. For a registered name it
  returns the volume of that queue.
\<close>

theorem getVolumeQueue_unregistered:
  "(map_of (volumeQueues st) name = None \<and> map_of (volumeQueues st) ''__proto__'' = None \<longrightarrow>
      getVolumeQueue st name =
        (if name \<in> set object_prototype_names then Inr Undefined else Inl TypeError)) \<and>
   (\<forall>q. map_of (volumeQueues st) name = Some q \<longrightarrow> getVolumeQueue st name = Inr (volume q))"
  by (simp add: getVolumeQueue_def)

theorem getVolumeQueue_unregistered_witness:
  "\<forall>r. getVolumeQueue (registerQueue ''bass'' 3 1 None (example_looper r)) ''treble''
         = Inl TypeError \<and>
       getVolumeQueue (registerQueue ''bass'' 3 1 None (example_looper r)) ''constructor''
         = Inr Undefined \<and>
       getVolumeQueue (registerQueue ''bass'' 3 1 None (example_looper r)) ''bass''
         = Inr (Number (Num (1 / 2)))"
proof
  fix r
  let ?st = "registerQueue ''bass'' 3 1 None (example_looper r)"
  have n: "map_of (volumeQueues ?st) ''treble'' = None"
    "map_of (volumeQueues ?st) ''constructor'' = None"
    "map_of (volumeQueues ?st) ''__proto__'' = None"
    by (simp_all add: registerQueue_lookup example_looper_eq)
  have q: "map_of (volumeQueues ?st) ''bass'' =
      Some \<lparr> totalSamples = 3, smoothing = 1, values = [Num 0, Num 1],
             volume = Number (Num (1 / 2)), average = Number (Num (1 / 2)),
             min_q = Number (Num 0), max_q = Number (Num 1), mode = ''average'' \<rparr>"
    by (simp add: registerQueue_lookup)
  from getVolumeQueue_unregistered [of ?st "''treble''"] n
  have t: "getVolumeQueue ?st ''treble'' = Inl TypeError"
    by (simp add: object_prototype_names_def)
  from getVolumeQueue_unregistered [of ?st "''constructor''"] n
  have c: "getVolumeQueue ?st ''constructor'' = Inr Undefined"
    by (simp add: object_prototype_names_def)
  from getVolumeQueue_unregistered [of ?st "''bass''"] q
  have b: "getVolumeQueue ?st ''bass'' = Inr (Number (Num (1 / 2)))"
    by simp
  from t c b
  show "getVolumeQueue ?st ''treble'' = Inl TypeError \<and>
        getVolumeQueue ?st ''constructor'' = Inr Undefined \<and>
        getVolumeQueue ?st ''bass'' = Inr (Number (Num (1 / 2)))"
    by simp
qed

text \<open>
  The claim as stated fails: with no queue registered, the call for the name \<^verbatim>\<open>bass\<close>
  throws instead of yielding \<^verbatim>\<open>undefined\<close>.
\<close>

theorem getVolumeQueue_throws:
  "\<forall>r. getVolumeQueue (example_looper r) ''bass'' = Inl TypeError \<and>
       getVolumeQueue (example_looper r) ''bass'' \<noteq> Inr Undefined"
  by (simp add: getVolumeQueue_def example_looper_eq object_prototype_names_def)

text \<open>
  C5. For a non-empty sequence ordered by start and a progress value at or beyond the
  start of the last interval, however far beyond its end, the resolution returns the
  last index: it neither fails on an access out of range nor falls through.
\<close>

theorem determineInterval_beyond_last:
  assumes "trackAnalysis st t \<noteq> []"
    and "ordered (trackAnalysis st t)"
    and "js_le (start (last (trackAnalysis st t))) (trackProgress st)"
  shows "determineInterval st t = Inr (Some (length (trackAnalysis st t) - 1))"
  using assms by (simp add: determineInterval_def determine_loop_beyond)

theorem determineInterval_beyond_last_witness:
  "\<forall>r. js_le (js_add r (start (last (example_analysis Beats)))
                        (duration (last (example_analysis Beats)))) (Num 1000) \<and>
       determineInterval ((example_looper r)\<lparr>trackProgress := Num 1000\<rparr>) Beats = Inr (Some 2)"
proof
  fix r
  let ?st = "(example_looper r)\<lparr>trackProgress := Num 1000\<rparr>"
  have ta: "trackAnalysis ?st Beats = example_analysis Beats"
    by (simp add: example_looper_eq)
  have h1: "trackAnalysis ?st Beats \<noteq> []"
    unfolding ta by (simp add: example_analysis_def)
  have h2: "ordered (trackAnalysis ?st Beats)"
    unfolding ta by (rule example_ordered)
  have h3: "js_le (start (last (trackAnalysis ?st Beats))) (trackProgress ?st)"
    unfolding ta by (simp add: example_analysis_simps example_length_def js_le_def)
  have "determineInterval ?st Beats = Inr (Some (length (trackAnalysis ?st Beats) - 1))"
    by (rule determineInterval_beyond_last [OF h1 h2 h3])
  then have d: "determineInterval ?st Beats = Inr (Some 2)"
    unfolding ta by (simp add: example_analysis_simps)
  have "js_le (js_add r (start (last (example_analysis Beats)))
                        (duration (last (example_analysis Beats)))) (Num 1000)"
    by (simp add: example_analysis_simps example_length_def js_le_def fl_numeral)
  with d show "js_le (js_add r (start (last (example_analysis Beats)))
                        (duration (last (example_analysis Beats)))) (Num 1000) \<and>
       determineInterval ?st Beats = Inr (Some 2)" by simp
qed

text \<open>
  C6. When the active segment is the last element of the segments, so that it has no
  successor, the volume is exactly 0 whatever the elapsed time and the loudness fields
  are, for an interval passed to the method and for the default argument alike.
\<close>

theorem getVolume_last_segment:
  assumes "trackAnalysis st Segments \<noteq> []"
    and "index iv = length (trackAnalysis st Segments) - 1"
  shows "getVolume r st iv = Num 0 \<and>
         (activeIntervals st Segments = Some iv \<longrightarrow> getVolume_default r st = Num 0)"
proof -
  from assms have "\<not> index iv + 1 < length (trackAnalysis st Segments)"
    by (cases "trackAnalysis st Segments") simp_all
  then have "getVolume r st iv = Num 0" by (rule getVolume_last)
  then show ?thesis by (simp add: getVolume_default_def)
qed

theorem getVolume_last_segment_witness:
  "\<forall>r. getVolume r (example_looper r)
     (with_elapsed r (with_index (example_analysis Segments ! 2) 2) (Num 27)) = Num 0 \<and>
   getVolume_default r
     ((example_looper r)\<lparr>activeIntervals := (activeIntervals (example_looper r))
        (Segments := Some (with_elapsed r (with_index (example_analysis Segments ! 2) 2) (Num 27)))\<rparr>)
     = Num 0"
proof
  fix r
  let ?iv = "with_elapsed r (with_index (example_analysis Segments ! 2) 2) (Num 27)"
  let ?st = "(example_looper r)\<lparr>activeIntervals := (activeIntervals (example_looper r))
        (Segments := Some ?iv)\<rparr>"
  have i: "index ?iv = 2" by (simp add: with_elapsed_def with_index_def)
  have a1: "trackAnalysis (example_looper r) Segments \<noteq> []"
    by (simp add: example_looper_eq example_analysis_def)
  have a2: "index ?iv = length (trackAnalysis (example_looper r) Segments) - 1"
    unfolding i by (simp add: example_looper_eq example_analysis_def)
  have b1: "trackAnalysis ?st Segments \<noteq> []"
    by (simp add: example_looper_eq example_analysis_def)
  have b2: "index ?iv = length (trackAnalysis ?st Segments) - 1"
    unfolding i by (simp add: example_looper_eq example_analysis_def)
  have b3: "activeIntervals ?st Segments = Some ?iv" by simp
  from getVolume_last_segment [OF a1 a2, of r] getVolume_last_segment [OF b1 b2, of r] b3
  show "getVolume r (example_looper r) ?iv = Num 0 \<and> getVolume_default r ?st = Num 0"
    by blast
qed

text \<open>
  C7 (amended). For an active segment with a successor, the volume is the interpolation
  \<^verbatim>\<open>a * (1 - t) + b * t\<close>, every operation rounded, between the two end values of the
  phase: from the loudness at the start to the maximum while the elapsed time is below
  the time of the maximum, from the maximum to the start loudness of the next segment
  otherwise. The fraction \<open>f\<close> of the first phase is \<^verbatim>\<open>elapsed / loudness_max_time\<close>; that
  of the second is
  \<^verbatim>\<open>((start + elapsed) - (start + loudness_max_time)) / (duration - loudness_max_time)\<close>,
  as the source computes it. \<open>t\<close> is \<open>f\<close> clamped to the unit interval when \<open>f\<close> is a
  number; when \<open>f\<close> is \<^verbatim>\<open>NaN\<close> the volume is \<^verbatim>\<open>NaN\<close>. With \<open>f\<close> at or below 0 the volume is
  the first end value and with \<open>f\<close> at or above 1 the second, as long as the other end
  value is finite: an elapsed time outside the window of the phase does not extrapolate.
  Nothing is asked of the elapsed time, the start, the duration or the time of the
  maximum.
\<close>

theorem getVolume_two_phase:
  assumes "index iv + 1 < length (trackAnalysis st Segments)"
    and "first_phase = js_lt (elapsed iv) (loudness_max_time iv)"
    and "a = (if first_phase then loudness_start iv else loudness_max iv)"
    and "b = (if first_phase then loudness_max iv
              else loudness_start (trackAnalysis st Segments ! (index iv + 1)))"
    and "f = (if first_phase then js_div r (elapsed iv) (loudness_max_time iv)
              else js_div r
                     (js_sub r (js_add r (start iv) (elapsed iv))
                               (js_add r (start iv) (loudness_max_time iv)))
                     (js_sub r (duration iv) (loudness_max_time iv)))"
  shows "getVolume r st iv = interpolateNumber r a b (unit_clamp f) \<and>
         (f = NaN \<longrightarrow> getVolume r st iv = NaN) \<and>
         (f \<noteq> NaN \<longrightarrow> (\<exists>t. unit_clamp f = Num t \<and> 0 \<le> t \<and> t \<le> 1)) \<and>
         (js_le f (Num 0) \<and> representable r a \<and> finite_number b \<longrightarrow> getVolume r st iv = a) \<and>
         (js_le (Num 1) f \<and> finite_number a \<and> representable r b \<longrightarrow> getVolume r st iv = b)"
proof -
  have v: "getVolume r st iv = interpolateNumber r a b (unit_clamp f)"
    using assms by (simp add: getVolume_phases)
  have n: "getVolume r st iv = NaN" if "f = NaN"
    unfolding v using that by (simp add: unit_clamp_def interpolateNumber_NaN)
  have lo: "getVolume r st iv = a" if "js_le f (Num 0)" "representable r a" "finite_number b"
    unfolding v using that by (simp add: unit_clamp_low interpolateNumber_0)
  have hi: "getVolume r st iv = b" if "js_le (Num 1) f" "finite_number a" "representable r b"
    unfolding v using that by (simp add: unit_clamp_high interpolateNumber_1)
  from v n lo hi unit_clamp_range [of f] show ?thesis by blast
qed

theorem getVolume_two_phase_witness:
  "\<forall>r. getVolume r (example_looper r)
          (with_elapsed r (with_index (example_analysis Segments ! 0) 0) (Num 0)) = Num (- 30) \<and>
       getVolume r (example_looper r)
          (with_elapsed r (with_index (example_analysis Segments ! 0) 0) (Num 5)) = Num (- 25) \<and>
       getVolume r (example_looper r)
          (with_elapsed r (with_index (example_analysis Segments ! 0) 0) (Num 12)) = Num (- 30)"
proof
  fix r
  let ?st = "example_looper r"
  let ?iv = "\<lambda>e. with_elapsed r (with_index (example_analysis Segments ! 0) 0) (Num e)"
  have iv0: "?iv 0 = \<lparr> start = Num 0, duration = Num 10, loudness_start = Num (- 30),
       loudness_max = Num (- 25), loudness_max_time = Num 5, index = 0,
       elapsed = Num 0, progress = Num 0 \<rparr>"
    by (rule example_active_0)
  have iv5: "?iv 5 = \<lparr> start = Num 0, duration = Num 10, loudness_start = Num (- 30),
       loudness_max = Num (- 25), loudness_max_time = Num 5, index = 0,
       elapsed = Num 5, progress = fl r (5 / 10) \<rparr>"
    by (rule example_active) simp
  have iv12: "?iv 12 = \<lparr> start = Num 0, duration = Num 10, loudness_start = Num (- 30),
       loudness_max = Num (- 25), loudness_max_time = Num 5, index = 0,
       elapsed = Num 12, progress = fl r (12 / 10) \<rparr>"
    by (rule example_active) simp
  have len: "length (trackAnalysis ?st Segments) = 3"
    by (simp add: example_looper_eq example_analysis_def)
  have nx: "loudness_start (trackAnalysis ?st Segments ! Suc 0) = Num (- 30)"
    by (simp add: example_looper_eq example_analysis_def example_interval_def)
  have rep: "representable r (Num (- 30))" "representable r (Num (- 25))"
    by (simp_all add: representable_def fl_neg_numeral)
  have fin: "finite_number (Num (- 30))" "finite_number (Num (- 25))"
    by (simp_all add: finite_number_def)
  have one: "js_le (Num 1) (fl r (7 / 5))"
    using fl_mono [of 1 "7 / 5" r] by (simp add: fl_1)
  have h: "index (?iv e) + 1 < length (trackAnalysis ?st Segments)" for e
    unfolding len by (simp add: with_elapsed_def with_index_def)
  have v0: "getVolume r ?st (?iv 0) = Num (- 30)"
  proof -
    have "js_le (js_div r (Num 0) (Num 5)) (Num 0)"
      by (simp add: fl_0 js_le_def)
    with getVolume_two_phase [OF h [of 0] refl refl refl refl, where r = r, THEN conjunct2, THEN conjunct2, THEN conjunct2, THEN conjunct1]
      rep fin
    show ?thesis unfolding iv0 by simp
  qed
  have v5: "getVolume r ?st (?iv 5) = Num (- 25)"
  proof -
    have "js_le (js_div r (js_sub r (js_add r (Num 0) (Num 5)) (js_add r (Num 0) (Num 5)))
                          (js_sub r (Num 10) (Num 5))) (Num 0)"
      by (simp add: fl_0 fl_numeral js_sub_def js_le_def)
    with getVolume_two_phase [OF h [of 5] refl refl refl refl, where r = r, THEN conjunct2, THEN conjunct2, THEN conjunct2, THEN conjunct1]
      rep fin nx
    show ?thesis unfolding iv5 by simp
  qed
  have v12: "getVolume r ?st (?iv 12) = Num (- 30)"
  proof -
    have "js_le (Num 1)
            (js_div r (js_sub r (js_add r (Num 0) (Num 12)) (js_add r (Num 0) (Num 5)))
                      (js_sub r (Num 10) (Num 5)))"
      using one by (simp add: fl_numeral js_sub_def)
    with getVolume_two_phase [OF h [of 12] refl refl refl refl, where r = r, THEN conjunct2, THEN conjunct2, THEN conjunct2, THEN conjunct2]
      rep fin nx
    show ?thesis unfolding iv12 by simp
  qed
  from v0 v5 v12 show "getVolume r ?st (?iv 0) = Num (- 30) \<and>
       getVolume r ?st (?iv 5) = Num (- 25) \<and> getVolume r ?st (?iv 12) = Num (- 30)"
    by simp
qed

text \<open>
  The claim as stated fails where the second phase is empty and the elapsed time is
  exactly the time of the maximum: the fraction is 0 / 0, which no clamp brings back
  into the unit interval, and the volume is \<^verbatim>\<open>NaN\<close>.
\<close>

theorem getVolume_empty_second_phase:
  "\<forall>r. getVolume r (example_looper r)
     \<lparr> start = Num 0, duration = Num 10, loudness_start = Num (- 30),
       loudness_max = Num (- 25), loudness_max_time = Num 10, index = 0,
       elapsed = Num 10, progress = Num 1 \<rparr> = NaN"
  by (simp add: getVolume_def example_looper_eq example_analysis_def example_interval_def
      js_sub_def signed_inf_def Math_min_def Math_max_def interpolateNumber_def fl_numeral fl_0)

text \<open>
  C8 (amended). For every base duration and every index \<open>i\<close> below 10000, the duration
  of tatum \<open>i\<close> is \<^verbatim>\<open>Math.round(base * (2 / 3))\<close> for an even \<open>i\<close> and
  \<^verbatim>\<open>Math.round(base * (1 / 3))\<close> for an odd \<open>i\<close>: the quotient and the product are rounded
  to doubles, then \<^verbatim>\<open>Math.round\<close> takes the nearest integer, a half rounded up. Tatum 0
  starts at 0, and each later tatum starts at the sum, as the machine adds them, of the
  start and the duration of its predecessor; that start is \<^verbatim>\<open>NaN\<close> for the base \<^verbatim>\<open>NaN\<close>
  only.
\<close>

theorem tatums_rounded_cumulative:
  assumes "i < 10000"
  shows "duration (buildStaticIntervals r base Tatums ! i) =
           Math_round (js_mul r base (js_div r (Num (if even i then 2 else 1)) (Num 3))) \<and>
         start (buildStaticIntervals r base Tatums ! 0) = Num 0 \<and>
         (0 < i \<longrightarrow>
            start (buildStaticIntervals r base Tatums ! i) =
              js_add r (start (buildStaticIntervals r base Tatums ! (i - 1)))
                       (duration (buildStaticIntervals r base Tatums ! (i - 1))) \<and>
            (start (buildStaticIntervals r base Tatums ! i) = NaN \<longleftrightarrow> base = NaN))"
proof (intro conjI impI)
  show "duration (buildStaticIntervals r base Tatums ! i) =
          Math_round (js_mul r base (js_div r (Num (if even i then 2 else 1)) (Num 3)))"
    using assms by (simp only: tatum_duration tatumDuration_eq)
  show "start (buildStaticIntervals r base Tatums ! 0) = Num 0"
    by (rule tatum_start_0)
next
  assume "0 < i"
  with assms show
    "start (buildStaticIntervals r base Tatums ! i) =
       js_add r (start (buildStaticIntervals r base Tatums ! (i - 1)))
                (duration (buildStaticIntervals r base Tatums ! (i - 1)))"
    "start (buildStaticIntervals r base Tatums ! i) = NaN \<longleftrightarrow> base = NaN"
    using tatum_start_cumulative [of i r base] by blast+
qed

theorem tatums_rounded_cumulative_witness:
  "\<forall>r. duration (buildStaticIntervals r (Num 2000) Tatums ! 0) = Num 1333 \<and>
       duration (buildStaticIntervals r (Num 2000) Tatums ! 1) = Num 667 \<and>
       start (buildStaticIntervals r (Num 2000) Tatums ! 0) = Num 0 \<and>
       start (buildStaticIntervals r (Num 2000) Tatums ! 1) = Num 1333 \<and>
       start (buildStaticIntervals r (Num 2000) Tatums ! 2) = Num 2000"
proof
  fix r
  let ?T = "buildStaticIntervals r (Num 2000) Tatums"
  have d0: "duration (?T ! 0) = Num 1333"
    by (simp add: tatum_duration tatumDuration_2000_even)
  have d1: "duration (?T ! 1) = Num 667"
    by (simp add: tatum_duration tatumDuration_2000_odd)
  have s0: "start (?T ! 0) = Num 0"
    using tatums_rounded_cumulative [of 0 r "Num 2000"] by simp
  have "start (?T ! 1) = js_add r (start (?T ! 0)) (duration (?T ! 0))"
    using tatums_rounded_cumulative [of 1 r "Num 2000"] by simp
  then have s1: "start (?T ! 1) = Num 1333"
    by (simp add: s0 d0 fl_numeral)
  have "start (?T ! 2) = js_add r (start (?T ! (2 - 1))) (duration (?T ! (2 - 1)))"
    using tatums_rounded_cumulative [of 2 r "Num 2000"] by simp
  then have "start (?T ! 2) = js_add r (start (?T ! 1)) (duration (?T ! 1))"
    by simp
  then have "start (?T ! 2) = js_add r (Num 1333) (Num 667)"
    by (simp only: s1 d1)
  then have s2: "start (?T ! 2) = Num 2000"
    by (simp add: fl_numeral)
  from d0 d1 s0 s1 s2
  show "duration (?T ! 0) = Num 1333 \<and> duration (?T ! 1) = Num 667 \<and>
       start (?T ! 0) = Num 0 \<and> start (?T ! 1) = Num 1333 \<and> start (?T ! 2) = Num 2000"
    by simp
qed

text \<open>
  The claim as stated fails: at base 2000 the first tatum lasts 1333, which is not the
  product \<^verbatim>\<open>2000 * (2 / 3)\<close> of the claim, however the arithmetic rounds.
\<close>

theorem tatum_duration_not_exact:
  "\<forall>r. duration (buildStaticIntervals r (Num 2000) Tatums ! 0) = Num 1333 \<and>
       Num 1333 \<noteq> js_mul r (Num 2000) (js_div r (Num 2) (Num 3))"
proof
  fix r
  obtain z where z: "js_mul r (Num 2000) (js_div r (Num 2) (Num 3)) = Num z" "1333 < z"
    using two_thirds_of_2000 by blast
  then have "Num 1333 \<noteq> js_mul r (Num 2000) (js_div r (Num 2) (Num 3))" by simp
  moreover have "duration (buildStaticIntervals r (Num 2000) Tatums ! 0) = Num 1333"
    by (simp add: tatum_duration tatumDuration_2000_even)
  ultimately show "duration (buildStaticIntervals r (Num 2000) Tatums ! 0) = Num 1333 \<and>
       Num 1333 \<noteq> js_mul r (Num 2000) (js_div r (Num 2) (Num 3))" by simp
qed

text \<open>
  C9. In a state whose queues all have a capacity of at least 0, a tick returns, and
  for every registered queue of capacity \<open>C\<close> the values after the tick are the new sample
  followed by the old values, cut to the first \<open>C\<close>: at most \<open>C\<close> samples, the capacity
  unchanged. After any positive number of ticks the values are the samples of those
  ticks, the latest first, followed by the values the queue started with (the bootstrap
  samples for a fresh queue), again cut to the first \<open>C\<close>: what is dropped is always the
  oldest.
\<close>

theorem volume_queue_fifo:
  assumes "list_all (\<lambda>(k, q). 0 \<le> totalSamples q) (volumeQueues st)"
    and "map_of (volumeQueues st) name = Some q"
  shows "(\<exists>st' q'. processVolumeQueues r lib st = Some st' \<and>
            map_of (volumeQueues st') name = Some q' \<and>
            values q' = take (nat (totalSamples q)) (getVolume_default r st # values q) \<and>
            int (length (values q')) \<le> totalSamples q \<and>
            totalSamples q' = totalSamples q) \<and>
         (\<forall>vs. vs \<noteq> [] \<longrightarrow>
            (\<exists>qs' q'. process_ticks lib vs (volumeQueues st) = Some qs' \<and>
               map_of qs' name = Some q' \<and>
               values q' = take (nat (totalSamples q)) (rev vs @ values q) \<and>
               int (length (values q')) \<le> totalSamples q \<and>
               totalSamples q' = totalSamples q))"
proof -
  have c: "0 \<le> totalSamples q"
  proof -
    from assms(2) have "(name, q) \<in> set (volumeQueues st)" by (rule map_of_SomeD)
    with assms(1) show ?thesis by (auto simp add: list_all_iff)
  qed
  have len: "int (length (take (nat (totalSamples q)) xs)) \<le> totalSamples q"
    for xs :: "number list"
    using c by (auto simp add: min_def)
  obtain qs1 q1 where s1: "process_queues lib (getVolume_default r st) (volumeQueues st) = Some qs1"
      "map_of qs1 name = Some q1"
      "totalSamples q1 = totalSamples q"
    and v1: "values q1 = take (nat (totalSamples q)) (getVolume_default r st # values q)"
    using process_queues_nonneg [OF assms(1), of lib "getVolume_default r st"] assms(2) by blast
  have l1: "int (length (values q1)) \<le> totalSamples q"
    unfolding v1 by (rule len)
  have one: "\<exists>st' q'. processVolumeQueues r lib st = Some st' \<and>
            map_of (volumeQueues st') name = Some q' \<and>
            values q' = take (nat (totalSamples q)) (getVolume_default r st # values q) \<and>
            int (length (values q')) \<le> totalSamples q \<and>
            totalSamples q' = totalSamples q"
  proof (intro exI conjI)
    show "processVolumeQueues r lib st = Some (st\<lparr>volumeQueues := qs1\<rparr>)"
      using s1(1) by (simp add: processVolumeQueues_def)
    show "map_of (volumeQueues (st\<lparr>volumeQueues := qs1\<rparr>)) name = Some q1"
      using s1(2) by simp
  qed (rule v1 l1 s1(3))+
  have many: "\<exists>qs' q'. process_ticks lib vs (volumeQueues st) = Some qs' \<and>
               map_of qs' name = Some q' \<and>
               values q' = take (nat (totalSamples q)) (rev vs @ values q) \<and>
               int (length (values q')) \<le> totalSamples q \<and>
               totalSamples q' = totalSamples q" if nonempty: "vs \<noteq> []" for vs
  proof -
    obtain qs' q' where s2: "process_ticks lib vs (volumeQueues st) = Some qs'"
        "map_of qs' name = Some q'"
        "totalSamples q' = totalSamples q"
      and v2: "values q' = take (nat (totalSamples q)) (rev vs @ values q)"
      using process_ticks_nonneg [OF assms(1) assms(2) nonempty] by blast
    have l2: "int (length (values q')) \<le> totalSamples q"
      unfolding v2 by (rule len)
    show ?thesis
      by (intro exI conjI) (rule s2 v2 l2)+
  qed
  from one many show ?thesis by blast
qed

theorem volume_queue_fifo_witness:
  "\<forall>r lib. \<exists>qs' q'.
     process_ticks lib [Num 5, Num 6]
       (volumeQueues (registerQueue ''bass'' 3 1 None (example_looper r))) = Some qs' \<and>
     map_of qs' ''bass'' = Some q' \<and>
     values q' = [Num 6, Num 5, Num 0]"
proof (intro allI)
  fix r lib
  let ?st = "registerQueue ''bass'' 3 1 None (example_looper r)"
  let ?q = "\<lparr> totalSamples = 3, smoothing = 1, values = [Num 0, Num 1],
          volume = Number (Num (1 / 2)), average = Number (Num (1 / 2)),
          min_q = Number (Num 0), max_q = Number (Num 1), mode = ''average'' \<rparr>"
  have qs: "volumeQueues ?st = [(''bass'', ?q)]"
    by (simp add: registerQueue_def example_looper_eq)
  have h1: "list_all (\<lambda>(k, q). 0 \<le> totalSamples q) (volumeQueues ?st)"
    unfolding qs by simp
  have h2: "map_of (volumeQueues ?st) ''bass'' = Some ?q"
    unfolding qs by simp
  have ne: "[Num 5, Num 6] \<noteq> []" by simp
  from volume_queue_fifo [OF h1 h2, of r lib] ne
  have "\<exists>qs' q'. process_ticks lib [Num 5, Num 6] (volumeQueues ?st) = Some qs' \<and>
               map_of qs' ''bass'' = Some q' \<and>
               values q' = take (nat (totalSamples ?q)) (rev [Num 5, Num 6] @ values ?q)"
    by blast
  then show "\<exists>qs' q'. process_ticks lib [Num 5, Num 6] (volumeQueues ?st) = Some qs' \<and>
     map_of qs' ''bass'' = Some q' \<and> values q' = [Num 6, Num 5, Num 0]"
    by (simp add: numeral_3_eq_3)
qed

text \<open>
  C10. After \<^verbatim>\<open>registerQueue\<close> the queue of that name is the fresh one, with the bootstrap
  values and statistics and the capacity, smoothing and mode just given, whatever the
  state held under the name before; the queues of the other names are untouched.
\<close>

theorem registerQueue_overwrites:
  "map_of (volumeQueues (registerQueue name ts sm md st)) name =
     Some \<lparr> totalSamples = ts, smoothing = sm, values = [Num 0, Num 1],
            volume = Number (Num (1 / 2)), average = Number (Num (1 / 2)),
            min_q = Number (Num 0), max_q = Number (Num 1),
            mode = (case md of None \<Rightarrow> ''average'' | Some m \<Rightarrow> m) \<rparr> \<and>
   (\<forall>other. other \<noteq> name \<longrightarrow>
      map_of (volumeQueues (registerQueue name ts sm md st)) other =
      map_of (volumeQueues st) other)"
  by (simp add: registerQueue_lookup)

theorem registerQueue_overwrites_witness:
  "\<forall>r.
   map_of (volumeQueues
      (registerQueue ''bass'' 8 2 (Some ''max'')
        (registerQueue ''mid'' 4 1 None (registerQueue ''bass'' 3 1 None (example_looper r)))))
     ''bass'' =
     Some \<lparr> totalSamples = 8, smoothing = 2, values = [Num 0, Num 1],
            volume = Number (Num (1 / 2)), average = Number (Num (1 / 2)),
            min_q = Number (Num 0), max_q = Number (Num 1), mode = ''max'' \<rparr> \<and>
   map_of (volumeQueues
      (registerQueue ''bass'' 8 2 (Some ''max'')
        (registerQueue ''mid'' 4 1 None (registerQueue ''bass'' 3 1 None (example_looper r)))))
     ''mid'' =
     Some \<lparr> totalSamples = 4, smoothing = 1, values = [Num 0, Num 1],
            volume = Number (Num (1 / 2)), average = Number (Num (1 / 2)),
            min_q = Number (Num 0), max_q = Number (Num 1), mode = ''average'' \<rparr>"
proof
  fix r
  show "
   map_of (volumeQueues
      (registerQueue ''bass'' 8 2 (Some ''max'')
        (registerQueue ''mid'' 4 1 None (registerQueue ''bass'' 3 1 None (example_looper r)))))
     ''bass'' =
     Some \<lparr> totalSamples = 8, smoothing = 2, values = [Num 0, Num 1],
            volume = Number (Num (1 / 2)), average = Number (Num (1 / 2)),
            min_q = Number (Num 0), max_q = Number (Num 1), mode = ''max'' \<rparr> \<and>
   map_of (volumeQueues
      (registerQueue ''bass'' 8 2 (Some ''max'')
        (registerQueue ''mid'' 4 1 None (registerQueue ''bass'' 3 1 None (example_looper r)))))
     ''mid'' =
     Some \<lparr> totalSamples = 4, smoothing = 1, values = [Num 0, Num 1],
            volume = Number (Num (1 / 2)), average = Number (Num (1 / 2)),
            min_q = Number (Num 0), max_q = Number (Num 1), mode = ''average'' \<rparr>"
    using registerQueue_overwrites [of "''bass''" 8 2 "Some ''max''"
        "registerQueue ''mid'' 4 1 None (registerQueue ''bass'' 3 1 None (example_looper r))"]
    by (simp add: registerQueue_lookup)
qed

end
